theory Spec2Isabelle
  imports Main "HOL-Library.Word"
begin

unbundle bit_operations_syntax

section \<open>Data model of \<open>pkg/sif/create.go\<close>\<close>

text \<open>
  Go's \<open>int64\<close>, \<open>uint64\<close> and (on a 64-bit host) \<open>int\<close> are 64-bit words: \<open>+\<close>, \<open>-\<close>
  wrap, \<open>mod\<close> and \<open>AND\<close> are the unsigned operations, \<open>sint\<close> reads the signed value and
  \<open><s\<close>, \<open>\<le>s\<close> are the signed comparisons. A conversion between \<open>int64\<close> and \<open>uint64\<close>
  keeps the bits, so it is the identity on the word.
\<close>

type_synonym byte = "8 word"
type_synonym i64 = "64 word"
type_synonym u32 = "32 word"

text \<open>
  The errors of the package are \<open>fmt.Errorf\<close> strings; the model keeps one constructor for
  each message of \<open>create.go\<close> (named after the error kinds of the design document where it
  has one), and \<open>Panic\<close> for a Go run-time panic (integer division by zero, index or slice
  bound out of range, nil reader).
\<close>

datatype error =
    SeekFailed          \<comment> \<open>a failed \<open>Seek\<close>\<close>
  | WriteFailed         \<comment> \<open>a failed \<open>Write\<close> or \<open>binary.Write\<close>\<close>
  | SyncFailed          \<comment> \<open>a failed \<open>Sync\<close>\<close>
  | OpenFailed          \<comment> \<open>"container file creation failed"\<close>
  | UserInfo            \<comment> \<open>"getting current user info", "converting UID", "converting GID"\<close>
  | ShortWrite          \<comment> \<open>"short write while copying to SIF file"\<close>
  | NoFreeSlot          \<comment> \<open>"no descriptor table free entry"\<close>
  | TableDesync         \<comment> \<open>"no descriptor table free entry, warning: header.Dfree was > 0"\<close>
  | EmptyInputSet       \<comment> \<open>"need at least one input descriptor"\<close>
  | NotDescriptorInput  \<comment> \<open>"structure is not of expected DescriptorInput type"\<close>
  | NotImplemented      \<comment> \<open>"method (DelCompact) not implemented yet"\<close>
  | UnknownID           \<comment> \<open>the failure of the identifier lookup\<close>
  | Panic

record Descriptor =
  Datatype :: u32
  Used :: bool
  ID :: u32
  Groupid :: u32
  Link :: u32
  Fileoff :: i64
  Filelen :: i64
  Storelen :: i64
  Ctime :: i64
  Mtime :: i64
  UID :: i64
  Gid :: i64
  Name :: "byte list"
  Extra :: "byte list"

record Header =
  Launch :: "byte list"
  Magic :: "byte list"
  Version :: "byte list"
  Arch :: "byte list"
  ID_hdr :: "byte list"
  Ctime_hdr :: i64
  Mtime_hdr :: i64
  Dfree :: i64
  Dtotal :: i64
  Descroff :: i64
  Descrlen :: i64
  Dataoff :: i64
  Datalen :: i64

text \<open>
  \<open>DescriptorInput\<close>: \<open>Data_in = None\<close> is the nil buffer, \<open>Fp_in\<close> is the content the
  reader delivers until end of file (\<open>None\<close> for a nil reader).
\<close>

record DescriptorInput =
  Datatype_in :: u32
  Groupid_in :: u32
  Link_in :: u32
  Size :: i64
  Fname :: "byte list"
  Fp_in :: "byte list option"
  Data_in :: "byte list option"
  Extra_in :: "byte list"

text \<open>
  The constants and array lengths that \<open>create.go\<close> uses and another file of the package
  declares are parameters of the model. \<open>DescrSize\<close> and \<open>HdrSize\<close> are
  \<open>binary.Size\<close> of a descriptor and of the header.
\<close>

record params =
  DescrNumEntries :: nat
  DescrStartOffset :: i64
  DataStartOffset :: i64
  DelZero :: i64
  DelCompact :: i64
  HdrMagic :: "byte list"
  DescrNameLen :: nat
  DescrMaxPrivLen :: nat
  HdrLaunchLen :: nat
  HdrMagicLen :: nat
  HdrVersionLen :: nat
  HdrArchLen :: nat
  HdrIDLen :: nat
  DescrSize :: nat
  HdrSize :: nat

text \<open>
  The host: \<open>os.Getpagesize()\<close>, the clock read by \<open>time.Now().Unix()\<close> (every reading
  of a run gives \<open>Now\<close>; nothing below depends on the time), the answer of
  \<open>user.Current()\<close> after both \<open>strconv.Atoi\<close> conversions (\<open>None\<close> when one of the three
  fails), and for \<open>os.OpenFile\<close> either \<open>None\<close> (the call fails) or the fault schedule of
  the handle it returns.
\<close>

record host =
  Pagesize :: i64
  Now :: i64
  UserIDs :: "(i64 \<times> i64) option"
  OpenFaults :: "bool list option"

section \<open>The file behind a handle\<close>

text \<open>
  A file is the log of what was written to it, the position of the handle and the fault
  schedule of the storage layer: every \<open>Seek\<close>, \<open>Write\<close> and \<open>Sync\<close> takes the next entry
  of \<open>faults\<close> and fails when it is \<open>True\<close> (an exhausted schedule has no more faults). A
  write is logged with its offset and what was written: raw bytes, or the little-endian
  encoding that \<open>binary.Write\<close> produces for a descriptor or the header, whose lengths are
  \<open>DescrSize\<close> and \<open>HdrSize\<close>. Offsets of a file are below \<open>2 ^ 63\<close>: a seek to a negative
  offset and a write that would pass the largest offset fail. \<open>valid = False\<close> is the nil
  handle, on which every call fails.
\<close>

datatype content = Raw "byte list" | EncDescr Descriptor | EncHeader Header

datatype ioev = Wr nat content | Synced

record osfile =
  events :: "ioev list"
  pos :: nat
  faults :: "bool list"
  valid :: bool

definition nilFile :: osfile where
  "nilFile = \<lparr>events = [], pos = 0, faults = [], valid = False\<rparr>"

fun csize :: "params \<Rightarrow> content \<Rightarrow> nat" where
  "csize c (Raw bs) = length bs"
| "csize c (EncDescr d) = DescrSize c"
| "csize c (EncHeader h) = HdrSize c"

definition fault :: "osfile \<Rightarrow> bool \<times> osfile" where
  "fault f = (case faults f of [] \<Rightarrow> (\<not> valid f, f)
              | b # bs \<Rightarrow> (b \<or> \<not> valid f, f\<lparr>faults := bs\<rparr>))"

text \<open>\<open>Fp.Seek(0, 1)\<close>: the current position.\<close>

definition seekCur :: "osfile \<Rightarrow> (error + i64) \<times> osfile" where
  "seekCur f = (case fault f of
       (True, f') \<Rightarrow> (Inl SeekFailed, f')
     | (False, f') \<Rightarrow> (Inr (word_of_nat (pos f')), f'))"

text \<open>\<open>Fp.Seek(off, 0)\<close>: an absolute position.\<close>

definition seekSet :: "osfile \<Rightarrow> i64 \<Rightarrow> (error + i64) \<times> osfile" where
  "seekSet f off = (case fault f of
       (True, f') \<Rightarrow> (Inl SeekFailed, f')
     | (False, f') \<Rightarrow>
         if off <s 0 then (Inl SeekFailed, f')
         else (Inr off, f'\<lparr>pos := nat (sint off)\<rparr>))"

definition fwrite :: "params \<Rightarrow> osfile \<Rightarrow> content \<Rightarrow> (error + nat) \<times> osfile" where
  "fwrite c f x = (case fault f of
       (True, f') \<Rightarrow> (Inl WriteFailed, f')
     | (False, f') \<Rightarrow>
         if 2 ^ 63 \<le> pos f' + csize c x then (Inl WriteFailed, f')
         else (Inr (csize c x),
               f'\<lparr>events := events f' @ [Wr (pos f') x], pos := pos f' + csize c x\<rparr>))"

definition fsync :: "osfile \<Rightarrow> error option \<times> osfile" where
  "fsync f = (case fault f of
       (True, f') \<Rightarrow> (Some SyncFailed, f')
     | (False, f') \<Rightarrow> (None, f'\<lparr>events := events f' @ [Synced]\<rparr>))"

record FileImage =
  Header :: Header
  Fp :: osfile
  DescrArr :: "Descriptor list"

section \<open>Offset arithmetic\<close>

text \<open>
  \<open>nextAligned\<close>, lines 22 to 31. \<open>offset64 % align64\<close> panics when \<open>align64\<close> is 0.
\<close>

definition nextAligned :: "i64 \<Rightarrow> i64 \<Rightarrow> error + i64" where
  "nextAligned offset align =
     (let align64 = align; offset64 = offset in
      if align64 = 0 then Inl Panic
      else Inr (if offset64 mod align64 \<noteq> 0
                then (offset64 AND NOT (align64 - 1)) + align64
                else offset64))"

text \<open>\<open>setFileOffNA\<close>, lines 34 to 45.\<close>

definition setFileOffNA :: "FileImage \<Rightarrow> i64 \<Rightarrow> (error + i64) \<times> FileImage" where
  "setFileOffNA fimg alignment =
     (case seekCur (Fp fimg) of
        (Inl e, fp) \<Rightarrow> (Inl e, fimg\<lparr>Fp := fp\<rparr>)
      | (Inr offset, fp) \<Rightarrow>
          (case nextAligned offset alignment of
             Inl e \<Rightarrow> (Inl e, fimg\<lparr>Fp := fp\<rparr>)
           | Inr aligned \<Rightarrow>
               (case seekSet fp aligned of
                  (Inl e, fp') \<Rightarrow> (Inl e, fimg\<lparr>Fp := fp'\<rparr>)
                | (Inr offset', fp') \<Rightarrow> (Inr offset', fimg\<lparr>Fp := fp'\<rparr>))))"

text \<open>\<open>getUserIDs\<close>, lines 48 to 65.\<close>

definition getUserIDs :: "host \<Rightarrow> error + (i64 \<times> i64)" where
  "getUserIDs h = (case UserIDs h of None \<Rightarrow> Inl UserInfo | Some ids \<Rightarrow> Inr ids)"

section \<open>Descriptors\<close>

text \<open>
  Go's \<open>copy(dst, src)\<close> overwrites the first \<open>min (len dst) (len src)\<close> bytes of \<open>dst\<close>
  and keeps the rest; \<open>copyInto n dst src\<close> is \<open>copy(dst[:n], src)\<close> seen on the whole array.
\<close>

definition copyBytes :: "byte list \<Rightarrow> byte list \<Rightarrow> byte list" where
  "copyBytes dst src = take (length dst) src @ drop (length src) dst"

definition copyInto :: "nat \<Rightarrow> byte list \<Rightarrow> byte list \<Rightarrow> byte list" where
  "copyInto n dst src = copyBytes (take n dst) src @ drop n dst"

text \<open>
  \<open>path.Base\<close> of the standard library: \<open>"."\<close> for the empty path, trailing slashes
  stripped, then what follows the last slash, \<open>"/"\<close> when nothing is left.
\<close>

definition pathBase :: "byte list \<Rightarrow> byte list" where
  "pathBase p =
     (if p = [] then [46]
      else let p1 = rev (dropWhile (\<lambda>b. b = 47) (rev p));
               p2 = rev (takeWhile (\<lambda>b. b \<noteq> 47) (rev p1))
           in if p2 = [] then [47] else p2)"

text \<open>The zero value of a descriptor (\<open>var emptyDesc Descriptor\<close>) and of the header.\<close>

definition emptyDesc :: "params \<Rightarrow> Descriptor" where
  "emptyDesc c = \<lparr>Datatype = 0, Used = False, ID = 0, Groupid = 0, Link = 0, Fileoff = 0,
     Filelen = 0, Storelen = 0, Ctime = 0, Mtime = 0, UID = 0, Gid = 0,
     Name = replicate (DescrNameLen c) 0, Extra = replicate (DescrMaxPrivLen c) 0\<rparr>"

definition emptyHeader :: "params \<Rightarrow> Header" where
  "emptyHeader c = \<lparr>Launch = replicate (HdrLaunchLen c) 0, Magic = replicate (HdrMagicLen c) 0,
     Version = replicate (HdrVersionLen c) 0, Arch = replicate (HdrArchLen c) 0,
     ID_hdr = replicate (HdrIDLen c) 0, Ctime_hdr = 0, Mtime_hdr = 0, Dfree = 0, Dtotal = 0,
     Descroff = 0, Descrlen = 0, Dataoff = 0, Datalen = 0\<rparr>"

text \<open>
  \<open>fillDescriptor\<close>, lines 68 to 97. The descriptor is filled in place, so a failure leaves
  the fields assigned before it: \<open>Fileoff\<close> is \<open>-1\<close> after a failed \<open>setFileOffNA\<close>, \<open>UID\<close>
  and \<open>Gid\<close> are \<open>-1\<close> after a failed \<open>getUserIDs\<close>. \<open>&fimg.DescrArr[index]\<close> panics when the
  index is out of range.
\<close>

definition fillDescriptor ::
  "params \<Rightarrow> host \<Rightarrow> FileImage \<Rightarrow> nat \<Rightarrow> DescriptorInput \<Rightarrow> error option \<times> FileImage" where
  "fillDescriptor c h fimg index input =
     (if length (DescrArr fimg) \<le> index then (Some Panic, fimg)
      else
        (case seekCur (Fp fimg) of
           (Inl e, fp) \<Rightarrow> (Some e, fimg\<lparr>Fp := fp\<rparr>)
         | (Inr curoff, fp) \<Rightarrow>
             (let descr = (DescrArr fimg ! index)\<lparr>Datatype := Datatype_in input,
                    ID := word_of_nat index + 1, Used := True,
                    Groupid := Groupid_in input, Link := Link_in input\<rparr>
              in
                (case setFileOffNA (fimg\<lparr>Fp := fp\<rparr>) (Pagesize h) of
                   (Inl e, fimg1) \<Rightarrow>
                     (Some e, fimg1\<lparr>DescrArr :=
                        list_update (DescrArr fimg1) index (descr\<lparr>Fileoff := - 1\<rparr>)\<rparr>)
                 | (Inr off, fimg1) \<Rightarrow>
                     (let descr1 = descr\<lparr>Fileoff := off, Filelen := Size input,
                            Storelen := off + Size input - curoff,
                            Ctime := Now h, Mtime := Now h\<rparr>
                      in
                        (case getUserIDs h of
                           Inl e \<Rightarrow>
                             (Some e, fimg1\<lparr>DescrArr :=
                                list_update (DescrArr fimg1) index
                                  (descr1\<lparr>UID := - 1, Gid := - 1\<rparr>)\<rparr>)
                         | Inr (uid, gid) \<Rightarrow>
                             (None, fimg1\<lparr>DescrArr :=
                                list_update (DescrArr fimg1) index
                                  (descr1\<lparr>UID := uid, Gid := gid,
                                     Name := copyInto (DescrNameLen c) (Name descr1)
                                               (pathBase (Fname input)),
                                     Extra := copyInto (DescrMaxPrivLen c) (Extra descr1)
                                                (Extra_in input)\<rparr>)\<rparr>)))))))"

text \<open>
  \<open>writeDataObject\<close>, lines 100 to 115. \<open>io.Copy\<close> is one write of the whole content of the
  reader, and \<open>n\<close> is its length.
\<close>

definition writeDataObject ::
  "params \<Rightarrow> FileImage \<Rightarrow> DescriptorInput \<Rightarrow> error option \<times> FileImage" where
  "writeDataObject c fimg input =
     (case Data_in input of
        Some data \<Rightarrow>
          (case fwrite c (Fp fimg) (Raw data) of
             (Inl e, fp) \<Rightarrow> (Some e, fimg\<lparr>Fp := fp\<rparr>)
           | (Inr n, fp) \<Rightarrow> (None, fimg\<lparr>Fp := fp\<rparr>))
      | None \<Rightarrow>
          (case Fp_in input of
             None \<Rightarrow> (Some Panic, fimg)
           | Some stream \<Rightarrow>
               (case fwrite c (Fp fimg) (Raw stream) of
                  (Inl e, fp) \<Rightarrow> (Some e, fimg\<lparr>Fp := fp\<rparr>)
                | (Inr n, fp) \<Rightarrow>
                    if word_of_nat n \<noteq> Size input then (Some ShortWrite, fimg\<lparr>Fp := fp\<rparr>)
                    else (None, fimg\<lparr>Fp := fp\<rparr>))))"

text \<open>
  The scan of \<open>createDescriptor\<close>, lines 129 to 133: \<open>for idx, v = range fimg.DescrArr\<close>
  assigns \<open>idx\<close> at every iteration and breaks at the first slot that is not used.
  \<open>findFree vs i idx\<close> runs the iterations from index \<open>i\<close> on, \<open>idx\<close> being the value
  assigned so far.
\<close>

fun findFree :: "Descriptor list \<Rightarrow> nat \<Rightarrow> nat \<Rightarrow> nat" where
  "findFree [] i idx = idx"
| "findFree (v # vs) i idx = (if Used v = False then i else findFree vs (Suc i) i)"

text \<open>
  \<open>createDescriptor\<close>, lines 118 to 153. In the test of line 134 the index
  \<open>fimg.DescrArr[idx]\<close> is evaluated only when the first conjunct holds, and panics on an
  empty table.
\<close>

definition createDescriptor ::
  "params \<Rightarrow> host \<Rightarrow> FileImage \<Rightarrow> DescriptorInput \<Rightarrow> error option \<times> FileImage" where
  "createDescriptor c h fimg input =
     (if Dfree (Header fimg) = 0 then (Some NoFreeSlot, fimg)
      else let idx = findFree (DescrArr fimg) 0 0 in
        if word_of_nat idx = Dtotal (Header fimg) - 1 \<and> length (DescrArr fimg) \<le> idx
        then (Some Panic, fimg)
        else if word_of_nat idx = Dtotal (Header fimg) - 1 \<and> Used (DescrArr fimg ! idx) = True
        then (Some TableDesync, fimg)
        else case fillDescriptor c h fimg idx input of
          (Some e, fimg1) \<Rightarrow> (Some e, fimg1)
        | (None, fimg1) \<Rightarrow>
            (case writeDataObject c fimg1 input of
               (Some e, fimg2) \<Rightarrow> (Some e, fimg2)
             | (None, fimg2) \<Rightarrow>
                 (None, fimg2\<lparr>Header := (Header fimg2)\<lparr>
                    Dfree := Dfree (Header fimg2) - 1,
                    Datalen := Datalen (Header fimg2) + Storelen (DescrArr fimg2 ! idx)\<rparr>\<rparr>)))"

section \<open>Persistence\<close>

text \<open>\<open>writeDescriptors\<close>, lines 156 to 170.\<close>

fun writeDescrLoop :: "params \<Rightarrow> osfile \<Rightarrow> Descriptor list \<Rightarrow> error option \<times> osfile" where
  "writeDescrLoop c fp [] = (None, fp)"
| "writeDescrLoop c fp (v # vs) =
     (case fwrite c fp (EncDescr v) of
        (Inl e, fp') \<Rightarrow> (Some e, fp')
      | (Inr n, fp') \<Rightarrow> writeDescrLoop c fp' vs)"

definition writeDescriptors :: "params \<Rightarrow> FileImage \<Rightarrow> error option \<times> FileImage" where
  "writeDescriptors c fimg =
     (case seekSet (Fp fimg) (DescrStartOffset c) of
        (Inl e, fp) \<Rightarrow> (Some e, fimg\<lparr>Fp := fp\<rparr>)
      | (Inr off, fp) \<Rightarrow>
          (case writeDescrLoop c fp (DescrArr fimg) of
             (Some e, fp') \<Rightarrow> (Some e, fimg\<lparr>Fp := fp'\<rparr>)
           | (None, fp') \<Rightarrow>
               (None, fimg\<lparr>Fp := fp', Header := (Header fimg)\<lparr>
                  Descrlen := word_of_nat (length (DescrArr fimg) * DescrSize c)\<rparr>\<rparr>)))"

text \<open>\<open>writeHeader\<close>, lines 173 to 184.\<close>

definition writeHeader :: "params \<Rightarrow> FileImage \<Rightarrow> error option \<times> FileImage" where
  "writeHeader c fimg =
     (case seekSet (Fp fimg) 0 of
        (Inl e, fp) \<Rightarrow> (Some e, fimg\<lparr>Fp := fp\<rparr>)
      | (Inr off, fp) \<Rightarrow>
          (case fwrite c fp (EncHeader (Header fimg)) of
             (Inl e, fp') \<Rightarrow> (Some e, fimg\<lparr>Fp := fp'\<rparr>)
           | (Inr n, fp') \<Rightarrow> (None, fimg\<lparr>Fp := fp'\<rparr>)))"

section \<open>Container lifecycle\<close>

text \<open>
  \<open>CreateInfo\<close>. An element of \<open>Inputlist\<close> (a \<open>container/list\<close>) holds any value; the
  loop of \<open>CreateContainer\<close> only tells a \<open>DescriptorInput\<close> from anything else.
\<close>

datatype element = Elem DescriptorInput | NotInput

record CreateInfo =
  Pathname :: "byte list"
  Launchstr :: "byte list"
  Sifversion :: "byte list"
  Arch_ci :: "byte list"
  ID_ci :: "byte list"
  Inputlist :: "element list"

fun createLoop :: "params \<Rightarrow> host \<Rightarrow> FileImage \<Rightarrow> element list \<Rightarrow> error option \<times> FileImage" where
  "createLoop c h fimg [] = (None, fimg)"
| "createLoop c h fimg (NotInput # es) = (Some NotDescriptorInput, fimg)"
| "createLoop c h fimg (Elem input # es) =
     (case createDescriptor c h fimg input of
        (Some e, fimg') \<Rightarrow> (Some e, fimg')
      | (None, fimg') \<Rightarrow> createLoop c h fimg' es)"

text \<open>
  \<open>CreateContainer\<close>, lines 189 to 245. The Go function returns the error only; the model
  also returns the local \<open>fimg\<close> as it is at the return, whose \<open>Fp\<close> is the file left on
  disk. The deferred \<open>Close\<close> is not modelled.
\<close>

definition CreateContainer :: "params \<Rightarrow> host \<Rightarrow> CreateInfo \<Rightarrow> error option \<times> FileImage" where
  "CreateContainer c h cinfo =
     (let fimg = \<lparr>Header = emptyHeader c, Fp = nilFile,
                   DescrArr = replicate (DescrNumEntries c) (emptyDesc c)\<rparr> in
      if length (Inputlist cinfo) = 0 then (Some EmptyInputSet, fimg)
      else
        let hdr = (Header fimg)\<lparr>
              Launch := copyBytes (Launch (Header fimg)) (Launchstr cinfo),
              Magic := copyBytes (Magic (Header fimg)) (HdrMagic c),
              Version := copyBytes (Version (Header fimg)) (Sifversion cinfo),
              Arch := copyBytes (Arch (Header fimg)) (Arch_ci cinfo),
              ID_hdr := copyBytes (ID_hdr (Header fimg)) (ID_ci cinfo),
              Ctime_hdr := Now h, Mtime_hdr := Now h,
              Dfree := word_of_nat (DescrNumEntries c),
              Dtotal := word_of_nat (DescrNumEntries c),
              Descroff := DescrStartOffset c,
              Dataoff := DataStartOffset c\<rparr>;
            fimg = fimg\<lparr>Header := hdr\<rparr>
        in case OpenFaults h of
          None \<Rightarrow> (Some OpenFailed, fimg)
        | Some fs \<Rightarrow>
            let fimg = fimg\<lparr>Fp := \<lparr>events = [], pos = 0, faults = fs, valid = True\<rparr>\<rparr> in
            (case seekSet (Fp fimg) (DataStartOffset c) of
               (Inl e, fp) \<Rightarrow> (Some e, fimg\<lparr>Fp := fp\<rparr>)
             | (Inr off, fp) \<Rightarrow>
                 (case createLoop c h (fimg\<lparr>Fp := fp\<rparr>) (Inputlist cinfo) of
                    (Some e, fimg1) \<Rightarrow> (Some e, fimg1)
                  | (None, fimg1) \<Rightarrow>
                      (case writeDescriptors c fimg1 of
                         (Some e, fimg2) \<Rightarrow> (Some e, fimg2)
                       | (None, fimg2) \<Rightarrow> writeHeader c fimg2))))"

text \<open>Signed readings of 64-bit words, for the loop below and for the offsets.\<close>

lemma sint_i64_small:
  assumes "uint (x::i64) < 2 ^ 63" shows "sint x = uint x"
proof -
  have "(- (2 ^ 63) :: int) \<le> 0" by simp
  also have "0 \<le> uint x" by simp
  finally have "- (2 ^ 63) \<le> uint x" .
  then have "signed_take_bit 63 (uint x) = uint x"
    using assms by (intro signed_take_bit_int_eq_self) simp_all
  then show ?thesis by (simp add: sint_uint)
qed

lemma sint_i64_big: 
  assumes "\<not> uint (x::i64) < 2 ^ 63" shows "sint x = uint x - 2 ^ 64"
proof -
  have u: "uint x < 2 ^ 64" using uint_bounded[of x] by simp
  have "take_bit 64 (uint x - 2 ^ 64) = take_bit 64 (uint x)"
    by (simp add: take_bit_eq_mod)
  then have "signed_take_bit 63 (uint x) = signed_take_bit 63 (uint x - 2 ^ 64)"
    by (simp add: signed_take_bit_eq_iff_take_bit_eq)
  also have "\<dots> = uint x - 2 ^ 64"
    using assms u by (simp add: signed_take_bit_int_eq_self)
  finally show ?thesis by (simp add: sint_uint)
qed

lemma sint_i64: "sint (x::i64) = (if uint x < 2 ^ 63 then uint x else uint x - 2 ^ 64)"
  by (simp add: sint_i64_small sint_i64_big)

lemma sint_nonneg_iff: "0 \<le> sint (x::i64) \<longleftrightarrow> uint x < 2 ^ 63"
  using uint_bounded[of x] by (simp add: sint_i64)



lemma sint_of_nat_i64: "n < 2 ^ 63 \<Longrightarrow> sint (word_of_nat n :: i64) = int n"
proof -
  assume n: "n < 2 ^ 63"
  have "uint (word_of_nat n :: i64) = int n mod 2 ^ 64"
    using uint_word_of_int[of "int n", where 'a=64] by simp
  also have "\<dots> = int n" using n by simp
  finally have u: "uint (word_of_nat n :: i64) = int n" .
  then have "uint (word_of_nat n :: i64) < 2 ^ 63" using n by simp
  from sint_i64_small[OF this] u show ?thesis by simp
qed

lemma sint_sub_4096:
  assumes "0 \<le> sint (n::i64)" shows "sint (n - 4096) = sint n - 4096"
proof -
  have "sint n < 2 ^ 63" using sint_lt[of n] by simp
  then have "signed_take_bit 63 (sint n - 4096) = sint n - 4096"
    using assms by (intro signed_take_bit_int_eq_self) simp_all
  then show ?thesis by (simp add: sint_word_ariths)
qed

text \<open>
  \<open>zeroData\<close>, lines 247 to 271. \<open>zero[:upbound]\<close> panics when \<open>upbound\<close> is negative or
  above 4096. \<open>zeroLoop\<close> is one run of the \<open>for\<close> loop from the values \<open>n\<close> and
  \<open>upbound\<close>.
\<close>

function zeroLoop :: "params \<Rightarrow> osfile \<Rightarrow> i64 \<Rightarrow> i64 \<Rightarrow> error option \<times> osfile" where
  "zeroLoop c fp n upbound =
     (let upbound = (if n <s 4096 then n else upbound) in
      if upbound <s 0 \<or> 4096 <s upbound then (Some Panic, fp)
      else case fwrite c fp (Raw (replicate (nat (sint upbound)) 0)) of
        (Inl e, fp') \<Rightarrow> (Some e, fp')
      | (Inr k, fp') \<Rightarrow>
          let n = n - 4096 in
          if n \<le>s 0 then (None, fp') else zeroLoop c fp' n upbound)"
  by pat_completeness auto

termination
proof (relation "measure (\<lambda>(c, fp, n, upbound). nat (sint n))", goal_cases)
  case 1
  show ?case by simp
next
  case (2 c fp n upbound up x fp' k n')
  then have nn: "0 \<le> sint n" and big: "\<not> sint (n - 4096) \<le> 0"
    by (auto simp add: word_sless_alt word_sle_eq split: if_splits)
  then show ?case using 2 by (simp add: sint_sub_4096)
qed

declare zeroLoop.simps [simp del]


definition zeroData :: "params \<Rightarrow> FileImage \<Rightarrow> Descriptor \<Rightarrow> error option \<times> FileImage" where
  "zeroData c fimg descr =
     (case seekSet (Fp fimg) (Fileoff descr) of
        (Inl e, fp) \<Rightarrow> (Some e, fimg\<lparr>Fp := fp\<rparr>)
      | (Inr off, fp) \<Rightarrow>
          (case zeroLoop c fp (Filelen descr) 4096 of
             (r, fp') \<Rightarrow> (r, fimg\<lparr>Fp := fp'\<rparr>)))"

text \<open>
  \<open>resetDescriptor\<close>, lines 273 to 287. \<open>fimg.DescrArr[0]\<close> panics on an empty table. Only
  the record on disk is overwritten; \<open>fimg.DescrArr\<close> is not assigned.
\<close>

definition resetDescriptor :: "params \<Rightarrow> FileImage \<Rightarrow> nat \<Rightarrow> error option \<times> FileImage" where
  "resetDescriptor c fimg index =
     (if DescrArr fimg = [] then (Some Panic, fimg)
      else
        (let offset = Descroff (Header fimg) + word_of_nat index * word_of_nat (DescrSize c) in
         (case seekSet (Fp fimg) offset of
            (Inl e, fp) \<Rightarrow> (Some e, fimg\<lparr>Fp := fp\<rparr>)
          | (Inr off, fp) \<Rightarrow>
              (case fwrite c fp (EncDescr (emptyDesc c)) of
                 (Inl e, fp') \<Rightarrow> (Some e, fimg\<lparr>Fp := fp'\<rparr>)
               | (Inr n, fp') \<Rightarrow> (None, fimg\<lparr>Fp := fp'\<rparr>)))))"

text \<open>\<open>AddObject\<close>, lines 290 to 317.\<close>

definition AddObject ::
  "params \<Rightarrow> host \<Rightarrow> FileImage \<Rightarrow> DescriptorInput \<Rightarrow> error option \<times> FileImage" where
  "AddObject c h fimg input =
     (case seekSet (Fp fimg) (Dataoff (Header fimg) + Datalen (Header fimg)) of
        (Inl e, fp) \<Rightarrow> (Some e, fimg\<lparr>Fp := fp\<rparr>)
      | (Inr off, fp) \<Rightarrow>
          (case createDescriptor c h (fimg\<lparr>Fp := fp\<rparr>) input of
             (Some e, fimg1) \<Rightarrow> (Some e, fimg1)
           | (None, fimg1) \<Rightarrow>
               (case writeDescriptors c fimg1 of
                  (Some e, fimg2) \<Rightarrow> (Some e, fimg2)
                | (None, fimg2) \<Rightarrow>
                    (let fimg3 = fimg2\<lparr>Header := (Header fimg2)\<lparr>Mtime_hdr := Now h\<rparr>\<rparr> in
                     (case writeHeader c fimg3 of
                        (Some e, fimg4) \<Rightarrow> (Some e, fimg4)
                      | (None, fimg4) \<Rightarrow>
                          (case fsync (Fp fimg4) of
                             (r, fp') \<Rightarrow> (r, fimg4\<lparr>Fp := fp'\<rparr>)))))))"

text \<open>
  Modelled from the spec: \<open>GetFromDescrID\<close>, which \<open>DeleteObject\<close> calls and another file
  of the package defines. The design document (4.6) says that it resolves the identifier to
  its descriptor and slot index and fails with \<open>UnknownID\<close> if not found; identifiers are
  those of the slots in use (3). It reads the table and the file is not touched.
\<close>

fun lookupID :: "Descriptor list \<Rightarrow> u32 \<Rightarrow> nat \<Rightarrow> (Descriptor \<times> nat) option" where
  "lookupID [] ident i = None"
| "lookupID (v # vs) ident i =
     (if Used v \<and> ID v = ident then Some (v, i) else lookupID vs ident (Suc i))"

definition GetFromDescrID :: "FileImage \<Rightarrow> u32 \<Rightarrow> error + (Descriptor \<times> nat)" where
  "GetFromDescrID fimg ident =
     (case lookupID (DescrArr fimg) ident 0 of None \<Rightarrow> Inl UnknownID | Some r \<Rightarrow> Inr r)"

text \<open>
  \<open>DeleteObject\<close>, lines 323 to 357. The \<open>switch\<close> has the cases \<open>DelZero\<close> and
  \<open>DelCompact\<close> and no default: with any other value of \<open>flags\<close> control passes to line 338.
\<close>

definition DeleteObject ::
  "params \<Rightarrow> host \<Rightarrow> FileImage \<Rightarrow> u32 \<Rightarrow> i64 \<Rightarrow> error option \<times> FileImage" where
  "DeleteObject c h fimg ident flags =
     (case GetFromDescrID fimg ident of
        Inl e \<Rightarrow> (Some e, fimg)
      | Inr (descr, index) \<Rightarrow>
          (case (if flags = DelZero c then zeroData c fimg descr
                 else if flags = DelCompact c then (Some NotImplemented, fimg)
                 else (None, fimg)) of
             (Some e, fimg1) \<Rightarrow> (Some e, fimg1)
           | (None, fimg1) \<Rightarrow>
               (let fimg2 = fimg1\<lparr>Header := (Header fimg1)\<lparr>
                      Dfree := Dfree (Header fimg1) + 1, Mtime_hdr := Now h\<rparr>\<rparr> in
                (case resetDescriptor c fimg2 index of
                   (Some e, fimg3) \<Rightarrow> (Some e, fimg3)
                 | (None, fimg3) \<Rightarrow>
                     (case writeHeader c fimg3 of
                        (Some e, fimg4) \<Rightarrow> (Some e, fimg4)
                      | (None, fimg4) \<Rightarrow>
                          (case fsync (Fp fimg4) of
                             (r, fp') \<Rightarrow> (r, fimg4\<lparr>Fp := fp'\<rparr>)))))))"

section \<open>Properties of the offset arithmetic\<close>

lemma uint_pow2_i64: "k < 64 \<Longrightarrow> uint ((2::i64) ^ k) = 2 ^ k"
  by (rule uint_2p) (simp add: word_gt_0 )

lemma and_not_eq_minus: "(x::i64) AND NOT m = x - (x AND m)"
proof -
  have "(x AND NOT m) + (x AND m) = (x AND NOT m) OR (x AND m)"
    by (rule disjunctive_add_eq_or) (auto simp add: bit_eq_iff bit_simps)
  also have "\<dots> = x" by (auto simp add: bit_eq_iff bit_simps)
  finally show ?thesis by (simp add: algebra_simps)
qed

lemma clear_low: "k < 64 \<Longrightarrow> (x::i64) AND NOT (2 ^ k - 1) = x - x mod 2 ^ k"
  by (simp flip: mask_eq_decr_exp add: and_not_eq_minus word_gt_0 word_mod_2p_is_mask)

lemma uint_mod_p2: "k < 64 \<Longrightarrow> uint ((x::i64) mod 2 ^ k) = uint x mod 2 ^ k"
  by (simp add: uint_mod uint_pow2_i64)

lemma uint_floor:
  assumes "k < 64" shows "uint ((x::i64) - x mod 2 ^ k) = uint x - uint x mod 2 ^ k"
proof -
  have "uint (x mod 2 ^ k) \<le> uint x"
    using assms by (simp add: uint_mod_p2 zmod_le_nonneg_dividend)
  then have "uint (x - x mod 2 ^ k) = uint x - uint (x mod 2 ^ k)"
    by (simp add: uint_sub_lem)
  then show ?thesis using assms by (simp add: uint_mod_p2)
qed

lemma nextAligned_uint:
  assumes k: "k < 64" and ov: "uint x + 2 ^ k \<le> 2 ^ 64"
  shows "nextAligned x (2 ^ k) = Inr r \<Longrightarrow>
     uint r = (if uint x mod 2 ^ k = 0 then uint x else uint x - uint x mod 2 ^ k + 2 ^ k)"
proof -
  assume a: "nextAligned x (2 ^ k) = Inr r"
  have nz: "(2::i64) ^ k \<noteq> 0" using k by simp
  show ?thesis
  proof (cases "uint x mod 2 ^ k = 0")
    case True
    then have "x mod 2 ^ k = 0" using k by (simp add: word_uint_eq_iff uint_mod_p2)
    with a nz True show ?thesis by (simp add: nextAligned_def)
  next
    case False
    then have m: "x mod 2 ^ k \<noteq> 0" using k by (simp add: word_uint_eq_iff uint_mod_p2)
    with a nz have r: "r = (x - x mod 2 ^ k) + 2 ^ k"
      using k by (simp add: nextAligned_def clear_low Let_def)
    have "0 < uint x mod 2 ^ k" using False
      by (smt (verit) pos_mod_sign zero_less_power)
    then have "uint (x - x mod 2 ^ k) + uint ((2::i64) ^ k) < 2 ^ 64"
      using k ov by (simp add: uint_floor uint_pow2_i64)
    then have "uint (x - x mod 2 ^ k) + uint ((2::i64) ^ k) < 2 ^ LENGTH(64)"
      by simp
    then have "uint r = uint (x - x mod 2 ^ k) + uint ((2::i64) ^ k)"
      unfolding r by (rule uint_add_lem[THEN iffD1])
    with False show ?thesis using k by (simp add: uint_floor uint_pow2_i64)
  qed
qed


lemma aligned_int:
  fixes x p :: int
  assumes p: "0 < p"
  defines "r \<equiv> (if x mod p = 0 then x else x - x mod p + p)"
  shows "x \<le> r" and "r mod p = 0" and "r - x < p" and "x mod p = 0 \<Longrightarrow> r = x"
    and "x \<le> m \<Longrightarrow> m mod p = 0 \<Longrightarrow> r \<le> m"
proof -
  have lt: "x mod p < p" using p by (rule pos_mod_bound)
  have ge: "0 \<le> x mod p" using p by (simp add: pos_mod_sign)
  show "x \<le> r" using lt by (simp add: r_def)
  show "r mod p = 0" by (simp add: r_def minus_mod_eq_mult_div)
  show "r - x < p"
  proof (cases "x mod p = 0")
    case True then show ?thesis using p by (simp add: r_def)
  next
    case False
    with ge have "0 < x mod p" by linarith
    with False show ?thesis by (simp add: r_def)
  qed
  show "x mod p = 0 \<Longrightarrow> r = x" by (simp add: r_def)
  show "r \<le> m" if xm: "x \<le> m" and m0: "m mod p = 0"
  proof (cases "x mod p = 0")
    case True then show ?thesis using xm by (simp add: r_def)
  next
    case False
    have m: "m = p * (m div p)" using m0 by (metis mult_div_mod_eq add.right_neutral)
    have d: "x div p \<le> m div p" using xm p by (rule zdiv_mono1)
    have "x div p \<noteq> m div p"
    proof
      assume e: "x div p = m div p"
      have "x = p * (x div p) + x mod p" by simp
      with e m have "x = m + x mod p" by simp
      with False ge xm show False by simp
    qed
    with d have "x div p + 1 \<le> m div p" by simp
    then have "p * (x div p + 1) \<le> p * (m div p)" using p by (simp add: mult_left_mono)
    with m have "p * (x div p) + p \<le> m" by (simp add: algebra_simps)
    with False show ?thesis by (simp add: r_def minus_mod_eq_mult_div)
  qed
qed

text \<open>
  With an alignment and an offset that are not negative, an aligned offset that is not
  negative is not before the offset, whether the alignment is a power of two or not.
\<close>

lemma nextAligned_ge:
  assumes r: "nextAligned x a = Inr r"
    and a: "0 \<le> sint a" and x: "0 \<le> sint x" and nn: "0 \<le> sint r"
  shows "sint x \<le> sint r"
proof (cases "x mod a = 0")
  case True
  with r show ?thesis by (auto simp: nextAligned_def Let_def split: if_splits)
next
  case False
  from r have a0: "a \<noteq> 0" by (auto simp: nextAligned_def Let_def split: if_splits)
  with r False have re: "r = (x - (x AND (a - 1))) + a"
    by (auto simp: nextAligned_def Let_def and_not_eq_minus split: if_splits)
  have ua: "uint a < 2 ^ 63" using a by (simp add: sint_nonneg_iff)
  have ux: "uint x < 2 ^ 63" using x by (simp add: sint_nonneg_iff)
  have "uint a \<noteq> 0" using a0 by (simp add: uint_0_iff)
  moreover have "0 \<le> uint a" by (rule uint_nonnegative)
  ultimately have "1 \<le> uint a" by linarith
  then have "uint (1::i64) \<le> uint a" by simp
  then have "uint (a - 1) = uint a - uint (1::i64)" by (rule uint_sub_lem[THEN iffD1])
  then have um: "uint (a - 1) = uint a - 1" by simp
  have le1: "uint (x AND (a - 1)) \<le> uint (a - 1)"
    using word_and_le1[of x "a - 1"] by (simp add: word_le_def)
  have le2: "uint (x AND (a - 1)) \<le> uint x"
    using word_and_le2[of x "a - 1"] by (simp add: word_le_def)
  then have fl: "uint (x - (x AND (a - 1))) = uint x - uint (x AND (a - 1))"
    by (simp add: uint_sub_lem)
  have ge0: "0 \<le> uint (x AND (a - 1))" by (rule uint_nonnegative)
  have "uint x - uint (x AND (a - 1)) + uint a < 2 ^ 63 + 2 ^ 63"
    using ux ua ge0 by linarith
  then have "uint (x - (x AND (a - 1))) + uint a < 2 ^ LENGTH(64)"
    using fl by simp
  then have "uint r = uint (x - (x AND (a - 1))) + uint a"
    unfolding re by (rule uint_add_lem[THEN iffD1])
  with fl le1 um have "uint x \<le> uint r" by linarith
  moreover have "sint r = uint r" using nn by (simp add: sint_nonneg_iff sint_i64_small)
  moreover have "sint x = uint x" using ux by (rule sint_i64_small)
  ultimately show ?thesis by simp
qed

text \<open>
  C3 (amended). For an offset \<open>o \<ge> 0\<close> and an alignment \<open>a = 2 ^ k > 0\<close> with
  \<open>o + a \<le> 2 ^ 63\<close> (the aligned offset is an \<open>int64\<close>), \<open>nextAligned\<close> returns the
  smallest multiple of \<open>a\<close> that is at least \<open>o\<close>: the result \<open>r\<close> has \<open>o \<le> r\<close>,
  \<open>r mod a = 0\<close>, \<open>r - o < a\<close>, \<open>r = o\<close> when \<open>o\<close> is aligned, and \<open>r \<le> m\<close> for every
  multiple \<open>m\<close> of \<open>a\<close> with \<open>o \<le> m\<close>.
\<close>

theorem nextAligned_spec:
  assumes k: "k < 63" and nn: "0 \<le> sint offset" and ov: "sint offset + 2 ^ k \<le> 2 ^ 63"
  shows "\<exists>r. nextAligned offset (2 ^ k) = Inr r \<and>
           sint offset \<le> sint r \<and> sint r mod 2 ^ k = 0 \<and> sint r - sint offset < 2 ^ k \<and>
           (sint offset mod 2 ^ k = 0 \<longrightarrow> r = offset) \<and>
           (\<forall>m. sint offset \<le> m \<and> m mod 2 ^ k = 0 \<longrightarrow> sint r \<le> m)"
proof -
  define p :: int where "p = 2 ^ k"
  have pos: "0 < p" by (simp add: p_def)
  have nz: "(2::i64) ^ k \<noteq> 0" using k by simp
  then obtain r where r: "nextAligned offset (2 ^ k) = Inr r"
    by (simp add: nextAligned_def Let_def)
  have so: "sint offset = uint offset" using nn by (simp add: sint_nonneg_iff sint_i64_small)
  have "uint offset + 2 ^ k \<le> 2 ^ 64" using ov so by simp
  then have ur: "uint r = (if uint offset mod p = 0 then uint offset
                          else uint offset - uint offset mod p + p)"
    unfolding p_def using nextAligned_uint[OF _ _ r] k by simp
  have "uint r < 2 ^ 63"
  proof (cases "uint offset mod p = 0")
    case True then show ?thesis using ur nn by (simp add: sint_nonneg_iff)
  next
    case False
    then have "0 < uint offset mod p" using pos_mod_sign[OF pos, of "uint offset"] by simp
    then show ?thesis using ur False ov so by (simp add: p_def)
  qed
  then have sr: "sint r = uint r" by (rule sint_i64_small)
  have "r = offset" if "sint offset mod 2 ^ k = 0"
    using that ur so by (simp add: p_def word_uint_eq_iff)
  then show ?thesis
    using r aligned_int[OF pos, of "uint offset"] unfolding so ur[symmetric] p_def[symmetric]
    by (intro exI[of _ r]) (simp add: p_def sr)
qed


theorem nextAligned_spec_witness:
  "(12::nat) < 63 \<and> 0 \<le> sint (5000::i64) \<and> sint (5000::i64) + 2 ^ 12 \<le> 2 ^ 63 \<and>
   (\<exists>r. nextAligned 5000 (2 ^ 12) = Inr r \<and> sint (5000::i64) \<le> sint r \<and>
        sint r mod 2 ^ 12 = 0 \<and> sint r - sint (5000::i64) < 2 ^ 12) \<and>
   0 \<le> sint (8192::i64) \<and> sint (8192::i64) + 2 ^ 12 \<le> 2 ^ 63 \<and>
   sint (8192::i64) mod 2 ^ 12 = 0 \<and> nextAligned 8192 (2 ^ 12) = Inr 8192"
proof -
  have k: "(12::nat) < 63" by simp
  have a: "0 \<le> sint (5000::i64)" and a': "sint (5000::i64) + 2 ^ 12 \<le> 2 ^ 63" by simp_all
  have b: "0 \<le> sint (8192::i64)" and b': "sint (8192::i64) + 2 ^ 12 \<le> 2 ^ 63" by simp_all
  have al: "sint (8192::i64) mod 2 ^ 12 = 0" by simp
  have one: "\<exists>r. nextAligned 5000 (2 ^ 12) = Inr r \<and> sint (5000::i64) \<le> sint r \<and>
        sint r mod 2 ^ 12 = 0 \<and> sint r - sint (5000::i64) < 2 ^ 12"
    using nextAligned_spec[OF k a a'] by (elim exE conjE) (intro exI conjI)
  from nextAligned_spec[OF k b b'] obtain r where
    "nextAligned 8192 (2 ^ 12) = Inr r" "sint (8192::i64) mod 2 ^ 12 = 0 \<longrightarrow> r = 8192"
    by (elim exE conjE)
  with al have two: "nextAligned 8192 (2 ^ 12) = Inr 8192" by (elim impE) simp_all
  from k a a' one b b' al two show ?thesis by (intro conjI)
qed

text \<open>
  Without the bound the aligned offset wraps: at the largest \<open>int64\<close> and alignment 2 the
  result is the smallest \<open>int64\<close>, which is negative.
\<close>

theorem nextAligned_overflow:
  "0 \<le> sint (0x7FFFFFFFFFFFFFFF::i64) \<and>
   nextAligned 0x7FFFFFFFFFFFFFFF 2 = Inr 0x8000000000000000 \<and>
   sint (0x8000000000000000::i64) < sint (0x7FFFFFFFFFFFFFFF::i64)"
  by (simp add: nextAligned_def)

section \<open>The storage primitives and the allocation, step by step\<close>

lemma fault_False: "fault f = (False, f') \<Longrightarrow>
    valid f \<and> valid f' \<and> events f' = events f \<and> pos f' = pos f"
  by (auto simp: fault_def split: list.splits)

lemma fault_any: "fault f = (b, f') \<Longrightarrow>
    valid f' = valid f \<and> events f' = events f \<and> pos f' = pos f"
  by (auto simp: fault_def split: list.splits)

lemma seekCur_Inr: "seekCur f = (Inr x, f') \<Longrightarrow>
    x = word_of_nat (pos f) \<and> valid f \<and> valid f' \<and> events f' = events f \<and> pos f' = pos f"
  by (auto simp: seekCur_def split: prod.splits bool.splits dest: fault_False)

lemma seekCur_any: "seekCur f = (r, f') \<Longrightarrow>
    valid f' = valid f \<and> events f' = events f \<and> pos f' = pos f"
  by (auto simp: seekCur_def split: prod.splits bool.splits dest: fault_any)

lemma seekSet_Inr: "seekSet f off = (Inr x, f') \<Longrightarrow>
    x = off \<and> 0 \<le> sint off \<and> valid f \<and> valid f' \<and> events f' = events f \<and>
    pos f' = nat (sint off)"
  by (auto simp: seekSet_def word_sless_alt split: prod.splits bool.splits if_splits
           dest: fault_False)

lemma seekSet_any: "seekSet f off = (r, f') \<Longrightarrow>
    events f' = events f \<and> valid f' = valid f"
  by (auto simp: seekSet_def split: prod.splits bool.splits if_splits dest: fault_any)

lemma fwrite_Inr: "fwrite c f x = (Inr n, f') \<Longrightarrow>
    n = csize c x \<and> pos f + csize c x < 2 ^ 63 \<and> valid f \<and> valid f' \<and>
    events f' = events f @ [Wr (pos f) x] \<and> pos f' = pos f + csize c x"
  by (auto simp: fwrite_def split: prod.splits bool.splits if_splits dest: fault_False)

lemma fwrite_Inl: "fwrite c f x = (Inl e, f') \<Longrightarrow>
    e = WriteFailed \<and> events f' = events f \<and> valid f' = valid f \<and> pos f' = pos f"
  by (auto simp: fwrite_def split: prod.splits bool.splits if_splits dest: fault_any)

lemma fsync_None: "fsync f = (None, f') \<Longrightarrow>
    valid f \<and> valid f' \<and> events f' = events f @ [Synced] \<and> pos f' = pos f"
  by (auto simp: fsync_def split: prod.splits bool.splits if_splits dest: fault_False)

lemma fsync_Some: "fsync f = (Some e, f') \<Longrightarrow>
    e = SyncFailed \<and> events f' = events f \<and> valid f' = valid f \<and> pos f' = pos f"
  by (auto simp: fsync_def split: prod.splits bool.splits if_splits dest: fault_any)

lemma findFree_all_used:
  "\<forall>d\<in>set vs. Used d \<Longrightarrow> findFree vs i idx = (if vs = [] then idx else i + length vs - 1)"
  by (induction vs arbitrary: i idx) auto

lemma findFree_first:
  "j < length vs \<Longrightarrow> \<not> Used (vs ! j) \<Longrightarrow> \<forall>k<j. Used (vs ! k) \<Longrightarrow> findFree vs i idx = i + j"
proof (induction vs arbitrary: i idx j)
  case Nil then show ?case by simp
next
  case (Cons v vs)
  show ?case
  proof (cases j)
    case 0 with Cons.prems show ?thesis by simp
  next
    case (Suc j')
    with Cons.prems have "Used v" by auto
    moreover have "findFree vs (Suc i) i = Suc i + j'"
      using Cons.prems Suc by (intro Cons.IH) auto
    ultimately show ?thesis using Suc by simp
  qed
qed



text \<open>
  C7 (amended). Allocation fails and leaves the whole handle (header, table and file) as it
  was: with \<open>NoFreeSlot\<close> when \<open>Dfree\<close> is 0, whatever the table; and with \<open>TableDesync\<close>
  when \<open>Dfree\<close> claims free slots but every slot is used, provided that the table has at
  least one slot and that \<open>Dtotal\<close> is its number of slots. The proviso is needed: the test
  of line 134 compares the index where the scan stopped with \<open>Dtotal - 1\<close>, not with the
  last index of the table.
\<close>

theorem createDescriptor_exhausted:
  assumes "Dfree (Header fimg) = 0 \<or>
           (DescrArr fimg \<noteq> [] \<and> sint (Dtotal (Header fimg)) = int (length (DescrArr fimg)) \<and>
            (\<forall>d\<in>set (DescrArr fimg). Used d))"
  shows "createDescriptor c h fimg input =
           (Some (if Dfree (Header fimg) = 0 then NoFreeSlot else TableDesync), fimg)"
proof (cases "Dfree (Header fimg) = 0")
  case True
  then show ?thesis by (simp add: createDescriptor_def)
next
  case False
  with assms have ne: "DescrArr fimg \<noteq> []"
    and tot: "sint (Dtotal (Header fimg)) = int (length (DescrArr fimg))"
    and used: "\<forall>d\<in>set (DescrArr fimg). Used d" by auto
  have idx: "findFree (DescrArr fimg) 0 0 = length (DescrArr fimg) - 1"
    using used ne by (simp add: findFree_all_used)
  have "Dtotal (Header fimg) = word_of_int (sint (Dtotal (Header fimg)))" by simp
  also have "\<dots> = word_of_nat (length (DescrArr fimg))" unfolding tot by simp
  finally have "word_of_nat (length (DescrArr fimg) - 1) = Dtotal (Header fimg) - 1"
    using ne by (cases "DescrArr fimg") simp_all
  moreover have "Used (DescrArr fimg ! (length (DescrArr fimg) - 1))"
    using used ne by simp
  moreover have "\<not> length (DescrArr fimg) \<le> length (DescrArr fimg) - 1"
    using ne by (cases "DescrArr fimg") simp_all
  ultimately show ?thesis
    using False by (simp add: createDescriptor_def idx Let_def)
qed



lemma setFileOffNA_Inr:
  "setFileOffNA fimg a = (Inr off, fimg') \<Longrightarrow>
     nextAligned (word_of_nat (pos (Fp fimg))) a = Inr off \<and> 0 \<le> sint off \<and> valid (Fp fimg) \<and>
     Header fimg' = Header fimg \<and> DescrArr fimg' = DescrArr fimg \<and> valid (Fp fimg') \<and>
     events (Fp fimg') = events (Fp fimg) \<and> pos (Fp fimg') = nat (sint off)"
  by (auto simp: setFileOffNA_def split: prod.splits sum.splits
           dest!: seekCur_Inr seekSet_Inr)

lemma setFileOffNA_any:
  "setFileOffNA fimg a = (r, fimg') \<Longrightarrow>
     Header fimg' = Header fimg \<and> DescrArr fimg' = DescrArr fimg \<and>
     events (Fp fimg') = events (Fp fimg) \<and> valid (Fp fimg') = valid (Fp fimg)"
  by (auto simp: setFileOffNA_def split: prod.splits sum.splits
           dest!: seekCur_any seekSet_any)

lemma fillDescriptor_None:
  assumes "fillDescriptor c h fimg index input = (None, fimg1)"
  shows "index < length (DescrArr fimg) \<and> valid (Fp fimg) \<and> valid (Fp fimg1) \<and>
     Header fimg1 = Header fimg \<and> events (Fp fimg1) = events (Fp fimg) \<and>
     DescrArr fimg1 = list_update (DescrArr fimg) index (DescrArr fimg1 ! index) \<and>
     (\<exists>off. nextAligned (word_of_nat (pos (Fp fimg))) (Pagesize h) = Inr off \<and> 0 \<le> sint off \<and>
        pos (Fp fimg1) = nat (sint off) \<and>
        Used (DescrArr fimg1 ! index) \<and> ID (DescrArr fimg1 ! index) = word_of_nat index + 1 \<and>
        Fileoff (DescrArr fimg1 ! index) = off \<and> Filelen (DescrArr fimg1 ! index) = Size input \<and>
        Storelen (DescrArr fimg1 ! index) = off + Size input - word_of_nat (pos (Fp fimg)))"
  using assms
  by (auto simp: fillDescriptor_def Let_def split: prod.splits sum.splits if_splits
           dest!: seekCur_Inr setFileOffNA_Inr)

lemma fillDescriptor_any:
  assumes "fillDescriptor c h fimg index input = (r, fimg1)"
  shows "Header fimg1 = Header fimg \<and> events (Fp fimg1) = events (Fp fimg) \<and>
         valid (Fp fimg1) = valid (Fp fimg) \<and>
         length (DescrArr fimg1) = length (DescrArr fimg) \<and>
         (\<forall>j. j \<noteq> index \<longrightarrow> DescrArr fimg1 ! j = DescrArr fimg ! j)"
  using assms
  by (auto simp: fillDescriptor_def Let_def split: prod.splits sum.splits if_splits
           dest!: seekCur_any setFileOffNA_any)

lemma writeDataObject_None:
  assumes "writeDataObject c fimg input = (None, fimg2)"
  shows "Header fimg2 = Header fimg \<and> DescrArr fimg2 = DescrArr fimg \<and>
         valid (Fp fimg) \<and> valid (Fp fimg2) \<and>
         (\<exists>bs. (Data_in input = Some bs \<or>
               Data_in input = None \<and> Fp_in input = Some bs \<and> word_of_nat (length bs) = Size input) \<and>
          pos (Fp fimg) + length bs < 2 ^ 63 \<and>
          events (Fp fimg2) = events (Fp fimg) @ [Wr (pos (Fp fimg)) (Raw bs)] \<and>
          pos (Fp fimg2) = pos (Fp fimg) + length bs)"
  using assms
  by (auto simp: writeDataObject_def split: option.splits prod.splits sum.splits if_splits
           dest!: fwrite_Inr)


lemma createDescriptor_None:
  assumes "createDescriptor c h fimg input = (None, fimg')"
  shows "Dfree (Header fimg) \<noteq> 0 \<and> findFree (DescrArr fimg) 0 0 < length (DescrArr fimg) \<and>
     valid (Fp fimg) \<and> valid (Fp fimg') \<and>
     DescrArr fimg' = list_update (DescrArr fimg) (findFree (DescrArr fimg) 0 0)
                        (DescrArr fimg' ! findFree (DescrArr fimg) 0 0) \<and>
     Header fimg' = (Header fimg)\<lparr>Dfree := Dfree (Header fimg) - 1,
        Datalen := Datalen (Header fimg) + Storelen (DescrArr fimg' ! findFree (DescrArr fimg) 0 0)\<rparr> \<and>
     (\<exists>off bs. nextAligned (word_of_nat (pos (Fp fimg))) (Pagesize h) = Inr off \<and> 0 \<le> sint off \<and>
        Used (DescrArr fimg' ! findFree (DescrArr fimg) 0 0) \<and>
        ID (DescrArr fimg' ! findFree (DescrArr fimg) 0 0) =
          word_of_nat (findFree (DescrArr fimg) 0 0) + 1 \<and>
        Fileoff (DescrArr fimg' ! findFree (DescrArr fimg) 0 0) = off \<and>
        Filelen (DescrArr fimg' ! findFree (DescrArr fimg) 0 0) = Size input \<and>
        Storelen (DescrArr fimg' ! findFree (DescrArr fimg) 0 0) =
          off + Size input - word_of_nat (pos (Fp fimg)) \<and>
        (Data_in input = Some bs \<or>
         Data_in input = None \<and> Fp_in input = Some bs \<and> word_of_nat (length bs) = Size input) \<and>
        nat (sint off) + length bs < 2 ^ 63 \<and>
        events (Fp fimg') = events (Fp fimg) @ [Wr (nat (sint off)) (Raw bs)] \<and>
        pos (Fp fimg') = nat (sint off) + length bs)"
proof -
  let ?idx = "findFree (DescrArr fimg) 0 0"
  from assms have nz: "Dfree (Header fimg) \<noteq> 0"
    by (auto simp: createDescriptor_def split: if_splits)
  from assms obtain fimg1 fimg2 where
    f1: "fillDescriptor c h fimg ?idx input = (None, fimg1)" and
    w: "writeDataObject c fimg1 input = (None, fimg2)" and
    r: "fimg' = fimg2\<lparr>Header := (Header fimg2)\<lparr>Dfree := Dfree (Header fimg2) - 1,
                    Datalen := Datalen (Header fimg2) + Storelen (DescrArr fimg2 ! ?idx)\<rparr>\<rparr>"
    by (auto simp: createDescriptor_def Let_def split: if_splits prod.splits option.splits)
  from fillDescriptor_None[OF f1] writeDataObject_None[OF w] nz show ?thesis
    unfolding r by (auto)
qed




lemma zeroData_any:
  "zeroData c fimg descr = (r, fimg') \<Longrightarrow>
     Header fimg' = Header fimg \<and> DescrArr fimg' = DescrArr fimg"
  by (auto simp: zeroData_def split: prod.splits sum.splits)

lemma resetDescriptor_any:
  "resetDescriptor c fimg index = (r, fimg') \<Longrightarrow>
     Header fimg' = Header fimg \<and> DescrArr fimg' = DescrArr fimg"
  by (auto simp: resetDescriptor_def Let_def split: prod.splits sum.splits if_splits)

lemma writeHeader_any:
  "writeHeader c fimg = (r, fimg') \<Longrightarrow>
     Header fimg' = Header fimg \<and> DescrArr fimg' = DescrArr fimg"
  by (auto simp: writeHeader_def split: prod.splits sum.splits)

text \<open>The number of slots of a table that are not in use.\<close>

definition freeSlots :: "Descriptor list \<Rightarrow> nat" where
  "freeSlots arr = length (filter (\<lambda>d. \<not> Used d) arr)"

text \<open>
  A successful \<open>DeleteObject\<close> increments \<open>Dfree\<close> and leaves the table in memory as it
  was, the deleted slot still in use.
\<close>

lemma DeleteObject_None:
  assumes "DeleteObject c h fimg ident flags = (None, fimg')"
  shows "DescrArr fimg' = DescrArr fimg \<and>
         Header fimg' = (Header fimg)\<lparr>Dfree := Dfree (Header fimg) + 1, Mtime_hdr := Now h\<rparr>"
proof -
  from assms obtain descr index where g: "GetFromDescrID fimg ident = Inr (descr, index)"
    by (auto simp: DeleteObject_def split: sum.splits)
  define m where "m = (if flags = DelZero c then zeroData c fimg descr
                 else if flags = DelCompact c then (Some NotImplemented, fimg)
                 else (None, fimg))"
  obtain r1 fimg1 where m1: "m = (r1, fimg1)" by (cases m)
  have r1: "r1 = None" using assms g m1 
    by (auto simp: DeleteObject_def m_def[symmetric] split: option.splits)
  have h1: "Header fimg1 = Header fimg \<and> DescrArr fimg1 = DescrArr fimg"
    using m1 r1 zeroData_any[of c fimg descr r1 fimg1] by (auto simp: m_def split: if_splits)
  define fimg2 where "fimg2 = fimg1\<lparr>Header := (Header fimg1)\<lparr>
                      Dfree := Dfree (Header fimg1) + 1, Mtime_hdr := Now h\<rparr>\<rparr>"
  obtain r3 fimg3 where m3: "resetDescriptor c fimg2 index = (r3, fimg3)"
    by (cases "resetDescriptor c fimg2 index")
  obtain r4 fimg4 where m4: "writeHeader c fimg3 = (r4, fimg4)"
    by (cases "writeHeader c fimg3")
  have "fimg' = fimg4\<lparr>Fp := snd (fsync (Fp fimg4))\<rparr>"
    using assms g m1 r1 m3 m4
    by (auto simp: DeleteObject_def m_def[symmetric] fimg2_def[symmetric] Let_def
             split: option.splits prod.splits)
  with resetDescriptor_any[OF m3] writeHeader_any[OF m4] h1 show ?thesis
    by (simp add: fimg2_def)
qed

text \<open>
  C2 (amended). With the compact mode \<open>DeleteObject\<close> fails and leaves the whole handle
  (header, table and file) as it was: with \<open>NotImplemented\<close> when the identifier resolves, and
  with the error of the lookup otherwise. A mode that is neither zero-fill nor compact is
  not rejected: when such a call succeeds it has freed the descriptor (the free counter is
  incremented, the empty record and the header are written and synced) without any write to
  the payload.
\<close>

theorem DeleteObject_modes:
  "(DelCompact c \<noteq> DelZero c \<longrightarrow>
      DeleteObject c h fimg ident (DelCompact c) =
        (Some (case GetFromDescrID fimg ident of Inl e \<Rightarrow> e | Inr x \<Rightarrow> NotImplemented), fimg)) \<and>
   (flags \<noteq> DelZero c \<and> flags \<noteq> DelCompact c \<and>
    DeleteObject c h fimg ident flags = (None, fimg') \<longrightarrow>
      (\<exists>descr index. GetFromDescrID fimg ident = Inr (descr, index) \<and>
         Header fimg' = (Header fimg)\<lparr>Dfree := Dfree (Header fimg) + 1, Mtime_hdr := Now h\<rparr> \<and>
         DescrArr fimg' = DescrArr fimg \<and>
         events (Fp fimg') = events (Fp fimg) @
           [Wr (nat (sint (Descroff (Header fimg) + word_of_nat index * word_of_nat (DescrSize c))))
               (EncDescr (emptyDesc c)),
            Wr 0 (EncHeader (Header fimg')), Synced]))"
proof (intro conjI impI)
  assume "DelCompact c \<noteq> DelZero c"
  then show "DeleteObject c h fimg ident (DelCompact c) =
        (Some (case GetFromDescrID fimg ident of Inl e \<Rightarrow> e | Inr x \<Rightarrow> NotImplemented), fimg)"
    by (simp add: DeleteObject_def split: sum.splits)
next
  assume a: "flags \<noteq> DelZero c \<and> flags \<noteq> DelCompact c \<and>
    DeleteObject c h fimg ident flags = (None, fimg')"
  then obtain descr index where g: "GetFromDescrID fimg ident = Inr (descr, index)"
    by (auto simp: DeleteObject_def split: sum.splits)
  define fimg2 where "fimg2 = fimg\<lparr>Header := (Header fimg)\<lparr>
                      Dfree := Dfree (Header fimg) + 1, Mtime_hdr := Now h\<rparr>\<rparr>"
  from a g obtain fimg3 fimg4 where
    m3: "resetDescriptor c fimg2 index = (None, fimg3)" and
    m4: "writeHeader c fimg3 = (None, fimg4)" and
    m5: "fsync (Fp fimg4) = (None, Fp fimg')" and
    e: "fimg' = fimg4\<lparr>Fp := Fp fimg'\<rparr>"
    by (auto simp: DeleteObject_def fimg2_def[symmetric] Let_def
             split: option.splits prod.splits)
  from m3 have e3: "events (Fp fimg3) = events (Fp fimg) @
      [Wr (nat (sint (Descroff (Header fimg) + word_of_nat index * word_of_nat (DescrSize c))))
               (EncDescr (emptyDesc c))]"
    and h3: "Header fimg3 = Header fimg2" "DescrArr fimg3 = DescrArr fimg"
    by (auto simp: resetDescriptor_def Let_def fimg2_def split: if_splits prod.splits sum.splits
             dest!: seekSet_Inr fwrite_Inr)
  from m4 have e4: "events (Fp fimg4) = events (Fp fimg3) @ [Wr 0 (EncHeader (Header fimg3))]"
    and h4: "Header fimg4 = Header fimg3" "DescrArr fimg4 = DescrArr fimg3"
    by (auto simp: writeHeader_def split: prod.splits sum.splits dest!: seekSet_Inr fwrite_Inr)
  from m5 have e5: "events (Fp fimg') = events (Fp fimg4) @ [Synced]"
    by (auto dest: fsync_None)
  have hd: "Header fimg' = Header fimg4" "DescrArr fimg' = DescrArr fimg4"
    by (subst e, simp)+
  show "\<exists>descr index. GetFromDescrID fimg ident = Inr (descr, index) \<and>
         Header fimg' = (Header fimg)\<lparr>Dfree := Dfree (Header fimg) + 1, Mtime_hdr := Now h\<rparr> \<and>
         DescrArr fimg' = DescrArr fimg \<and>
         events (Fp fimg') = events (Fp fimg) @
           [Wr (nat (sint (Descroff (Header fimg) + word_of_nat index * word_of_nat (DescrSize c))))
               (EncDescr (emptyDesc c)),
            Wr 0 (EncHeader (Header fimg')), Synced]"
    using g e3 e4 e5 h3 h4 hd by (intro exI[of _ descr] exI[of _ index]) (simp add: fimg2_def)
qed

section \<open>Zero-fill\<close>

text \<open>The writes that zero-filling a payload of n bytes at offset off consists of.\<close>

fun zeroChunks :: "nat \<Rightarrow> nat \<Rightarrow> ioev list" where
  "zeroChunks off n =
     (if n \<le> 4096 then [Wr off (Raw (replicate n 0))]
      else Wr off (Raw (replicate 4096 0)) # zeroChunks (off + 4096) (n - 4096))"

declare zeroChunks.simps [simp del]

lemma zeroLoop_None:
  "0 \<le> sint n \<Longrightarrow> zeroLoop c fp n 4096 = (None, fp') \<Longrightarrow>
     events fp' = events fp @ zeroChunks (pos fp) (nat (sint n)) \<and>
     pos fp' = pos fp + nat (sint n) \<and> valid fp'"
proof (induction "nat (sint n)" arbitrary: n fp rule: less_induct)
  case less
  note run = less.prems(2) and nn = less.prems(1)
  show ?case
  proof (cases "sint n < 4096")
    case True
    then have s: "n <s 4096" by (simp add: word_sless_alt)
    have le: "n - 4096 \<le>s 0" using nn True by (simp add: word_sle_eq sint_sub_4096)
    have nneg: "\<not> n <s 0" using nn by (simp add: word_sless_alt)
    have ub: "\<not> 4096 <s n" using True by (simp add: word_sless_alt)
    have small: "nat (sint n) \<le> 4096" using True by simp
    from run s le nneg ub small show ?thesis
      unfolding zeroLoop.simps[of c fp n 4096] zeroChunks.simps[of "pos fp" "nat (sint n)"]
      by (auto simp: Let_def split: prod.splits sum.splits dest!: fwrite_Inr)
  next
    case False
    then have s: "\<not> n <s 4096" by (simp add: word_sless_alt)
    have sn: "sint (n - 4096) = sint n - 4096" using nn by (rule sint_sub_4096)
    from run s obtain k fp1 where
      w: "fwrite c fp (Raw (replicate 4096 0)) = (Inr k, fp1)"
      and rest: "(if n - 4096 \<le>s 0 then (None, fp1) else zeroLoop c fp1 (n - 4096) 4096) = (None, fp')"
      unfolding zeroLoop.simps[of c fp n 4096]
      by (auto simp: Let_def split: prod.splits sum.splits if_splits)
    from fwrite_Inr[OF w] have w': "events fp1 = events fp @ [Wr (pos fp) (Raw (replicate 4096 0))]"
      "pos fp1 = pos fp + 4096" "valid fp1" by auto
    show ?thesis
    proof (cases "sint n = 4096")
      case True
      then have "n - 4096 \<le>s 0" using sn by (simp add: word_sle_eq)
      with rest w' True show ?thesis
        unfolding zeroChunks.simps[of "pos fp" "nat (sint n)"] by auto
    next
      case False
      with \<open>\<not> sint n < 4096\<close> have gt: "4096 < sint n" by simp
      then have "\<not> n - 4096 \<le>s 0" using sn by (simp add: word_sle_eq)
      with rest have r: "zeroLoop c fp1 (n - 4096) 4096 = (None, fp')" by simp
      have "nat (sint (n - 4096)) < nat (sint n)" using sn gt by simp
      moreover have "0 \<le> sint (n - 4096)" using sn gt by simp
      ultimately have "events fp' = events fp1 @ zeroChunks (pos fp1) (nat (sint (n - 4096))) \<and>
        pos fp' = pos fp1 + nat (sint (n - 4096)) \<and> valid fp'"
        using r by (intro less.hyps) auto
      moreover have "nat (sint (n - 4096)) = nat (sint n) - 4096" using sn by simp
      ultimately show ?thesis using w' gt
        unfolding zeroChunks.simps[of "pos fp" "nat (sint n)"] by (auto simp: nat_le_iff)
    qed
  qed
qed


text \<open>
  What a reader finds at byte \<open>i\<close> of the file after a log of writes: the byte of the last
  write that covers \<open>i\<close> (for an encoded descriptor or header, which of its bytes), or
  nothing when no write covers it.
\<close>

datatype cell = Byte byte | DescrByte Descriptor nat | HeaderByte Header nat

fun cellOf :: "content \<Rightarrow> nat \<Rightarrow> cell" where
  "cellOf (Raw bs) k = Byte (bs ! k)"
| "cellOf (EncDescr d) k = DescrByte d k"
| "cellOf (EncHeader h) k = HeaderByte h k"

fun overwrite :: "params \<Rightarrow> nat \<Rightarrow> cell option \<Rightarrow> ioev \<Rightarrow> cell option" where
  "overwrite c i old (Wr off x) =
     (if off \<le> i \<and> i < off + csize c x then Some (cellOf x (i - off)) else old)"
| "overwrite c i old Synced = old"

definition byteAt :: "params \<Rightarrow> ioev list \<Rightarrow> nat \<Rightarrow> cell option" where
  "byteAt c evs i = foldl (overwrite c i) None evs"

lemma zeroChunks_outside:
  "\<not> (off \<le> i \<and> i < off + n) \<Longrightarrow> foldl (overwrite c i) old (zeroChunks off n) = old"
proof (induction off n arbitrary: old rule: zeroChunks.induct)
  case (1 off n)
  show ?case
  proof (cases "n \<le> 4096")
    case True
    with 1 show ?thesis by (subst zeroChunks.simps) auto
  next
    case False
    with 1 show ?thesis by (subst zeroChunks.simps) auto
  qed
qed

lemma zeroChunks_inside:
  "off \<le> i \<Longrightarrow> i < off + n \<Longrightarrow> foldl (overwrite c i) old (zeroChunks off n) = Some (Byte 0)"
proof (induction off n arbitrary: old rule: zeroChunks.induct)
  case (1 off n)
  show ?case
  proof (cases "n \<le> 4096")
    case True
    with 1 show ?thesis by (subst zeroChunks.simps) simp
  next
    case False
    show ?thesis
    proof (cases "i < off + 4096")
      case True
      then have "foldl (overwrite c i) (Some (Byte 0)) (zeroChunks (off + 4096) (n - 4096)) =
                 Some (Byte 0)"
        by (intro zeroChunks_outside) simp
      with True False 1 show ?thesis by (subst zeroChunks.simps) simp
    next
      case f: False
      then show ?thesis using False 1 by (subst zeroChunks.simps) simp
    qed
  qed
qed


text \<open>
  C8. For a descriptor with \<open>Filelen \<ge> 0\<close>, a successful \<open>zeroData\<close> adds to the file
  exactly the writes \<open>zeroChunks Fileoff Filelen\<close>: zero bytes from \<open>Fileoff\<close> on, in chunks
  of 4096 bytes with a last chunk of the remaining length. After it every byte of
  \<open>[Fileoff, Fileoff + Filelen)\<close> reads as zero and every byte outside reads as before; the
  header and the table in memory are as before.
\<close>

theorem zeroData_writes:
  assumes len: "0 \<le> sint (Filelen descr)"
    and run: "zeroData c fimg descr = (None, fimg')"
  shows "0 \<le> sint (Fileoff descr) \<and>
         events (Fp fimg') = events (Fp fimg) @
           zeroChunks (nat (sint (Fileoff descr))) (nat (sint (Filelen descr))) \<and>
         (\<forall>i. sint (Fileoff descr) \<le> int i \<and> int i < sint (Fileoff descr) + sint (Filelen descr) \<longrightarrow>
              byteAt c (events (Fp fimg')) i = Some (Byte 0)) \<and>
         (\<forall>i. \<not> (sint (Fileoff descr) \<le> int i \<and> int i < sint (Fileoff descr) + sint (Filelen descr)) \<longrightarrow>
              byteAt c (events (Fp fimg')) i = byteAt c (events (Fp fimg)) i) \<and>
         Header fimg' = Header fimg \<and> DescrArr fimg' = DescrArr fimg"
proof -
  from run obtain off fp fp' where
    sk: "seekSet (Fp fimg) (Fileoff descr) = (Inr off, fp)" and
    lp: "zeroLoop c fp (Filelen descr) 4096 = (None, fp')" and
    f': "fimg' = fimg\<lparr>Fp := fp'\<rparr>"
    by (auto simp: zeroData_def split: prod.splits sum.splits)
  from seekSet_Inr[OF sk] have o: "0 \<le> sint (Fileoff descr)" "events fp = events (Fp fimg)"
    "pos fp = nat (sint (Fileoff descr))" by auto
  from zeroLoop_None[OF len lp] o have
    ev: "events (Fp fimg') = events (Fp fimg) @
           zeroChunks (nat (sint (Fileoff descr))) (nat (sint (Filelen descr)))"
    by (simp add: f')
  have "byteAt c (events (Fp fimg')) i = Some (Byte 0)"
    if "sint (Fileoff descr) \<le> int i \<and> int i < sint (Fileoff descr) + sint (Filelen descr)" for i
    unfolding byteAt_def ev foldl_append using that o(1) len
    by (intro zeroChunks_inside) auto
  moreover have "byteAt c (events (Fp fimg')) i = byteAt c (events (Fp fimg)) i"
    if "\<not> (sint (Fileoff descr) \<le> int i \<and> int i < sint (Fileoff descr) + sint (Filelen descr))" for i
    unfolding byteAt_def ev foldl_append using that o(1) len
    by (intro zeroChunks_outside) auto
  ultimately show ?thesis using o(1) ev by (simp add: f')
qed

section \<open>In-memory buffers\<close>

lemma writeDataObject_Fp:
  "Fp a = Fp b \<Longrightarrow> fst (writeDataObject c a input) = fst (writeDataObject c b input) \<and>
      Fp (snd (writeDataObject c a input)) = Fp (snd (writeDataObject c b input))"
  by (auto simp: writeDataObject_def split: option.splits prod.splits sum.splits)

lemma fillDescriptor_Size:
  "fst (fillDescriptor c h fimg idx (input\<lparr>Size := s\<rparr>)) = fst (fillDescriptor c h fimg idx input) \<and>
   Fp (snd (fillDescriptor c h fimg idx (input\<lparr>Size := s\<rparr>))) =
   Fp (snd (fillDescriptor c h fimg idx input))"
  by (auto simp: fillDescriptor_def Let_def split: option.splits prod.splits sum.splits)

lemma writeDataObject_buffer_Size:
  "Data_in input = Some bs \<Longrightarrow>
     writeDataObject c fimg (input\<lparr>Size := s\<rparr>) = writeDataObject c fimg input"
  by (simp add: writeDataObject_def)

lemma createDescriptor_buffer_Size:
  assumes "Data_in input = Some bs"
  shows "fst (createDescriptor c h fimg (input\<lparr>Size := s\<rparr>)) = fst (createDescriptor c h fimg input)"
proof -
  let ?idx = "findFree (DescrArr fimg) 0 0"
  let ?a = "fillDescriptor c h fimg ?idx (input\<lparr>Size := s\<rparr>)"
  let ?b = "fillDescriptor c h fimg ?idx input"
  have f: "fst ?a = fst ?b" and p: "Fp (snd ?a) = Fp (snd ?b)"
    using fillDescriptor_Size[where c=c and h=h and fimg=fimg and idx="?idx" and input=input and s=s] by auto
  have w: "fst (writeDataObject c (snd ?a) (input\<lparr>Size := s\<rparr>)) = fst (writeDataObject c (snd ?b) input)"
    using writeDataObject_Fp[OF p, where c=c and input=input]
      writeDataObject_buffer_Size[OF assms, where c=c and fimg="snd ?a" and s=s]
    by simp
  show ?thesis
    using f w
    by (cases ?a; cases ?b)
       (auto simp: createDescriptor_def Let_def split: option.splits prod.splits)
qed

text \<open>
  C10. For an input with an in-memory buffer, \<open>writeDataObject\<close> never compares the length
  of the buffer with the declared size: its result does not depend on \<open>Size\<close>, it is never
  \<open>ShortWrite\<close>, and whether \<open>createDescriptor\<close> succeeds does not depend on \<open>Size\<close> either.
  When \<open>createDescriptor\<close> succeeds, the payload write is the whole buffer and the stored
  \<open>Filelen\<close> is the declared size, whatever the length of the buffer.
\<close>

theorem writeDataObject_buffer:
  assumes buf: "Data_in input = Some bs"
  shows "writeDataObject c fimg (input\<lparr>Size := s\<rparr>) = writeDataObject c fimg input \<and>
         fst (writeDataObject c fimg input) \<noteq> Some ShortWrite \<and>
         fst (createDescriptor c h fimg (input\<lparr>Size := s\<rparr>)) = fst (createDescriptor c h fimg input) \<and>
         (createDescriptor c h fimg input = (None, fimg') \<longrightarrow>
            Filelen (DescrArr fimg' ! findFree (DescrArr fimg) 0 0) = Size input \<and>
            events (Fp fimg') = events (Fp fimg) @
              [Wr (nat (sint (Fileoff (DescrArr fimg' ! findFree (DescrArr fimg) 0 0)))) (Raw bs)])"
proof -
  have "fst (writeDataObject c fimg input) \<noteq> Some ShortWrite"
    using buf by (auto simp: writeDataObject_def split: prod.splits sum.splits dest: fwrite_Inl)
  moreover have "Filelen (DescrArr fimg' ! findFree (DescrArr fimg) 0 0) = Size input \<and>
            events (Fp fimg') = events (Fp fimg) @
              [Wr (nat (sint (Fileoff (DescrArr fimg' ! findFree (DescrArr fimg) 0 0)))) (Raw bs)]"
    if "createDescriptor c h fimg input = (None, fimg')"
    using createDescriptor_None[OF that] buf by auto
  ultimately show ?thesis
    using writeDataObject_buffer_Size[OF buf] createDescriptor_buffer_Size[OF buf] by simp
qed

section \<open>Persistence order\<close>

text \<open>
  The writes of the full descriptor table: slot \<open>i\<close> of the table at offset
  \<open>off + i * DescrSize\<close>, in table order.
\<close>

fun tableEvents :: "params \<Rightarrow> nat \<Rightarrow> Descriptor list \<Rightarrow> ioev list" where
  "tableEvents c off [] = []"
| "tableEvents c off (d # ds) = Wr off (EncDescr d) # tableEvents c (off + DescrSize c) ds"

fun isHeaderWrite :: "ioev \<Rightarrow> bool" where
  "isHeaderWrite (Wr off (EncHeader hdr)) = True"
| "isHeaderWrite ev = False"

definition headerFree :: "ioev list \<Rightarrow> bool" where
  "headerFree evs = list_all (\<lambda>ev. \<not> isHeaderWrite ev) evs"

lemma headerFree_simps [simp]:
  "headerFree []" "headerFree (ev # evs) = (\<not> isHeaderWrite ev \<and> headerFree evs)"
  "headerFree (xs @ ys) = (headerFree xs \<and> headerFree ys)"
  by (auto simp: headerFree_def)

lemma headerFree_tableEvents [simp]: "headerFree (tableEvents c off ds)"
  by (induction ds arbitrary: off) auto

lemma writeDescrLoop_None:
  "writeDescrLoop c fp vs = (None, fp') \<Longrightarrow>
     events fp' = events fp @ tableEvents c (pos fp) vs \<and> valid fp' = valid fp"
proof (induction vs arbitrary: fp)
  case Nil then show ?case by simp
next
  case (Cons v vs)
  from Cons.prems obtain n fp1 where w: "fwrite c fp (EncDescr v) = (Inr n, fp1)"
    and r: "writeDescrLoop c fp1 vs = (None, fp')"
    by (auto split: prod.splits sum.splits)
  from fwrite_Inr[OF w] Cons.IH[OF r] show ?case by auto
qed

lemma writeDescrLoop_any:
  "writeDescrLoop c fp vs = (r, fp') \<Longrightarrow>
     (\<exists>new. events fp' = events fp @ new \<and> headerFree new) \<and> valid fp' = valid fp"
proof (induction vs arbitrary: fp)
  case Nil then show ?case by simp
next
  case (Cons v vs)
  show ?case
  proof (cases "fwrite c fp (EncDescr v)")
    case (Pair a fp1)
    show ?thesis
    proof (cases a)
      case (Inl e)
      with Pair Cons.prems fwrite_Inl[of c fp "EncDescr v" e fp1] show ?thesis by auto
    next
      case (Inr n)
      with Pair Cons.prems have r: "writeDescrLoop c fp1 vs = (r, fp')" by simp
      from fwrite_Inr[of c fp "EncDescr v" n fp1] Pair Inr Cons.IH[OF r] show ?thesis by auto
    qed
  qed
qed

lemma writeDescriptors_None:
  "writeDescriptors c fimg = (None, fimg') \<Longrightarrow>
     events (Fp fimg') = events (Fp fimg) @
        tableEvents c (nat (sint (DescrStartOffset c))) (DescrArr fimg) \<and>
     DescrArr fimg' = DescrArr fimg \<and> valid (Fp fimg') \<and>
     Header fimg' = (Header fimg)\<lparr>Descrlen := word_of_nat (length (DescrArr fimg) * DescrSize c)\<rparr>"
  by (auto simp: writeDescriptors_def split: prod.splits sum.splits option.splits
           dest!: seekSet_Inr writeDescrLoop_None)

lemma writeDescriptors_any:
  "writeDescriptors c fimg = (r, fimg') \<Longrightarrow>
     (\<exists>new. events (Fp fimg') = events (Fp fimg) @ new \<and> headerFree new) \<and>
     DescrArr fimg' = DescrArr fimg"
  by (auto simp: writeDescriptors_def split: prod.splits sum.splits option.splits
           dest!: seekSet_any writeDescrLoop_any)

lemma writeHeader_None:
  "writeHeader c fimg = (None, fimg') \<Longrightarrow>
     events (Fp fimg') = events (Fp fimg) @ [Wr 0 (EncHeader (Header fimg))] \<and>
     DescrArr fimg' = DescrArr fimg \<and> Header fimg' = Header fimg \<and> valid (Fp fimg')"
  by (auto simp: writeHeader_def split: prod.splits sum.splits dest!: seekSet_Inr fwrite_Inr)

lemma writeHeader_Some:
  "writeHeader c fimg = (Some e, fimg') \<Longrightarrow> events (Fp fimg') = events (Fp fimg)"
  by (auto simp: writeHeader_def split: prod.splits sum.splits dest!: seekSet_any fwrite_Inl)

lemma writeDataObject_events_any:
  "writeDataObject c fimg input = (r, fimg') \<Longrightarrow>
     \<exists>new. events (Fp fimg') = events (Fp fimg) @ new \<and> headerFree new"
  by (auto simp: writeDataObject_def split: option.splits prod.splits sum.splits if_splits
           dest!: fwrite_Inl fwrite_Inr)

lemma createDescriptor_events_any:
  assumes "createDescriptor c h fimg input = (r, fimg')"
  shows "\<exists>new. events (Fp fimg') = events (Fp fimg) @ new \<and> headerFree new"
proof -
  let ?idx = "findFree (DescrArr fimg) 0 0"
  obtain r1 fimg1 where f1: "fillDescriptor c h fimg ?idx input = (r1, fimg1)"
    by (cases "fillDescriptor c h fimg ?idx input")
  obtain r2 fimg2 where w: "writeDataObject c fimg1 input = (r2, fimg2)"
    by (cases "writeDataObject c fimg1 input")
  from assms fillDescriptor_any[OF f1] writeDataObject_events_any[OF w] show ?thesis
    by (auto simp: createDescriptor_def Let_def f1 w split: if_splits option.splits)
qed


lemma createLoop_events_any:
  "createLoop c h fimg es = (r, fimg') \<Longrightarrow>
     \<exists>new. events (Fp fimg') = events (Fp fimg) @ new \<and> headerFree new"
proof (induction es arbitrary: fimg)
  case Nil then show ?case by simp
next
  case (Cons x es)
  show ?case
  proof (cases x)
    case NotInput
    with Cons.prems show ?thesis by simp
  next
    case (Elem input)
    obtain r1 fimg1 where c1: "createDescriptor c h fimg input = (r1, fimg1)"
      by (cases "createDescriptor c h fimg input")
    from createDescriptor_events_any[OF c1] obtain new1 where
      n1: "events (Fp fimg1) = events (Fp fimg) @ new1" "headerFree new1" by auto
    show ?thesis
    proof (cases r1)
      case (Some e)
      with Cons.prems Elem c1 n1 show ?thesis by auto
    next
      case None
      with Cons.prems Elem c1 have "createLoop c h fimg1 es = (r, fimg')" by simp
      from Cons.IH[OF this] n1 show ?thesis by auto
    qed
  qed
qed

text \<open>
  \<open>persisted c fimg' new rest\<close>: the writes \<open>new\<close> are writes that are not of the header,
  then the writes of the full table of \<open>fimg'\<close> at the table's position, then the write of the
  header of \<open>fimg'\<close> at offset 0, then \<open>rest\<close>.
\<close>

definition persisted :: "params \<Rightarrow> FileImage \<Rightarrow> ioev list \<Rightarrow> ioev list \<Rightarrow> bool" where
  "persisted c fimg' new rest \<longleftrightarrow>
     (\<exists>pre. headerFree pre \<and>
        new = pre @ tableEvents c (nat (sint (DescrStartOffset c))) (DescrArr fimg') @
              Wr 0 (EncHeader (Header fimg')) # rest)"

lemma persist_steps:
  assumes wd: "writeDescriptors c fimg1 = (None, fimg2)"
    and wh: "writeHeader c (fimg2\<lparr>Header := hdr\<rparr>) = (None, fimg4)"
    and pre: "events (Fp fimg1) = old @ pre" "headerFree pre"
  shows "events (Fp fimg4) = old @ pre @ tableEvents c (nat (sint (DescrStartOffset c))) (DescrArr fimg4) @
           [Wr 0 (EncHeader (Header fimg4))]"
  using writeDescriptors_None[OF wd] writeHeader_None[OF wh] pre by simp

text \<open>
  C6. In every run of \<open>AddObject\<close> and of \<open>CreateContainer\<close>, successful or not, the
  header is written only after the full descriptor table: a successful run writes the
  payload, then every slot of the table at its position, then the header at offset 0 (then
  \<open>AddObject\<close> syncs); a failed run has written no header, unless it is an \<open>AddObject\<close>
  whose final \<open>Sync\<close> failed, and then the table was written before the header as well.
\<close>

theorem table_before_header:
  "(AddObject c h fimg input = (r, fimg') \<longrightarrow>
      (\<exists>new. events (Fp fimg') = events (Fp fimg) @ new \<and>
         (if r = None then persisted c fimg' new [Synced]
          else headerFree new \<or> persisted c fimg' new []))) \<and>
   (CreateContainer c h cinfo = (r, fimg') \<longrightarrow>
      (if r = None then persisted c fimg' (events (Fp fimg')) []
       else headerFree (events (Fp fimg'))))"
proof (intro conjI impI)
  assume run: "AddObject c h fimg input = (r, fimg')"
  show "\<exists>new. events (Fp fimg') = events (Fp fimg) @ new \<and>
         (if r = None then persisted c fimg' new [Synced]
          else headerFree new \<or> persisted c fimg' new [])"
  proof (cases "seekSet (Fp fimg) (Dataoff (Header fimg) + Datalen (Header fimg))")
    case (Pair a fp)
    note sk = seekSet_any[OF Pair]
    show ?thesis
    proof (cases a)
      case (Inl e)
      with run Pair sk show ?thesis by (auto simp: AddObject_def)
    next
      case (Inr off)
      obtain r1 fimg1 where c1: "createDescriptor c h (fimg\<lparr>Fp := fp\<rparr>) input = (r1, fimg1)"
        by (cases "createDescriptor c h (fimg\<lparr>Fp := fp\<rparr>) input")
      from createDescriptor_events_any[OF c1] sk obtain new1 where
        n1: "events (Fp fimg1) = events (Fp fimg) @ new1" "headerFree new1" by auto
      show ?thesis
      proof (cases r1)
        case (Some e)
        with run Pair Inr c1 n1 show ?thesis by (auto simp: AddObject_def)
      next
        case None
        obtain r2 fimg2 where c2: "writeDescriptors c fimg1 = (r2, fimg2)"
          by (cases "writeDescriptors c fimg1")
        from writeDescriptors_any[OF c2] n1 obtain new2 where
          n2: "events (Fp fimg2) = events (Fp fimg) @ new2" "headerFree new2" by auto
        show ?thesis
        proof (cases r2)
          case (Some e)
          with run Pair Inr c1 None c2 n2 show ?thesis by (auto simp: AddObject_def)
        next
          case n: None
          let ?f3 = "fimg2\<lparr>Header := (Header fimg2)\<lparr>Mtime_hdr := Now h\<rparr>\<rparr>"
          obtain r4 fimg4 where c4: "writeHeader c ?f3 = (r4, fimg4)"
            by (cases "writeHeader c ?f3")
          show ?thesis
          proof (cases r4)
            case (Some e)
            with run Pair Inr c1 None c2 n c4 n2 writeHeader_Some[of c ?f3 e fimg4]
            show ?thesis by (auto simp: AddObject_def Let_def)
          next
            case n4: None
            from persist_steps[OF c2[unfolded n] c4[unfolded n4] n1]
            have e4: "events (Fp fimg4) = events (Fp fimg) @ new1 @
                tableEvents c (nat (sint (DescrStartOffset c))) (DescrArr fimg4) @
                [Wr 0 (EncHeader (Header fimg4))]" .
            obtain r5 fp5 where c5: "fsync (Fp fimg4) = (r5, fp5)" by (cases "fsync (Fp fimg4)")
            from run Pair Inr c1 None c2 n c4 n4 c5
            have res: "r = r5" "fimg' = fimg4\<lparr>Fp := fp5\<rparr>"
              by (auto simp: AddObject_def Let_def)
            show ?thesis
            proof (cases r5)
              case None
              with fsync_None[of "Fp fimg4" fp5] c5 e4 n1(2) res show ?thesis
                by (auto simp: persisted_def intro!: exI[of _ new1])
            next
              case (Some e)
              with fsync_Some[of "Fp fimg4" e fp5] c5 e4 n1(2) res show ?thesis
                by (auto simp: persisted_def intro!: exI[of _ new1])
            qed
          qed
        qed
      qed
    qed
  qed
next
  assume run: "CreateContainer c h cinfo = (r, fimg')"
  let ?f0 = "\<lparr>Header = emptyHeader c, Fp = nilFile,
                   DescrArr = replicate (DescrNumEntries c) (emptyDesc c)\<rparr>"
  show "if r = None then persisted c fimg' (events (Fp fimg')) []
       else headerFree (events (Fp fimg'))"
  proof (cases "length (Inputlist cinfo) = 0")
    case True
    with run show ?thesis by (auto simp: CreateContainer_def nilFile_def)
  next
    case ne: False
    show ?thesis
    proof (cases "OpenFaults h")
      case None
      with run ne show ?thesis by (auto simp: CreateContainer_def Let_def nilFile_def)
    next
      case (Some fs)
      define hdr where "hdr = (emptyHeader c)\<lparr>
              Launch := copyBytes (Launch (emptyHeader c)) (Launchstr cinfo),
              Magic := copyBytes (Magic (emptyHeader c)) (HdrMagic c),
              Version := copyBytes (Version (emptyHeader c)) (Sifversion cinfo),
              Arch := copyBytes (Arch (emptyHeader c)) (Arch_ci cinfo),
              ID_hdr := copyBytes (ID_hdr (emptyHeader c)) (ID_ci cinfo),
              Ctime_hdr := Now h, Mtime_hdr := Now h,
              Dfree := word_of_nat (DescrNumEntries c),
              Dtotal := word_of_nat (DescrNumEntries c),
              Descroff := DescrStartOffset c,
              Dataoff := DataStartOffset c\<rparr>"
      define f1 where "f1 = \<lparr>Header = hdr,
          Fp = \<lparr>events = [], pos = 0, faults = fs, valid = True\<rparr>,
          DescrArr = replicate (DescrNumEntries c) (emptyDesc c)\<rparr>"
      have body: "CreateContainer c h cinfo =
        (case seekSet (Fp f1) (DataStartOffset c) of
               (Inl e, fp) \<Rightarrow> (Some e, f1\<lparr>Fp := fp\<rparr>)
             | (Inr off, fp) \<Rightarrow>
                 (case createLoop c h (f1\<lparr>Fp := fp\<rparr>) (Inputlist cinfo) of
                    (Some e, fimg1) \<Rightarrow> (Some e, fimg1)
                  | (None, fimg1) \<Rightarrow>
                      (case writeDescriptors c fimg1 of
                         (Some e, fimg2) \<Rightarrow> (Some e, fimg2)
                       | (None, fimg2) \<Rightarrow> writeHeader c fimg2)))"
        using ne Some by (simp add: CreateContainer_def Let_def f1_def hdr_def
            split: prod.splits sum.splits option.splits)
      obtain a fp where sk: "seekSet (Fp f1) (DataStartOffset c) = (a, fp)"
        by (cases "seekSet (Fp f1) (DataStartOffset c)")
      have e0: "events fp = []" using seekSet_any[OF sk] by (simp add: f1_def)
      show ?thesis
      proof (cases a)
        case (Inl e)
        with run body sk e0 show ?thesis by auto
      next
        case (Inr off)
        obtain r1 fimg1 where c1: "createLoop c h (f1\<lparr>Fp := fp\<rparr>) (Inputlist cinfo) = (r1, fimg1)"
          by (cases "createLoop c h (f1\<lparr>Fp := fp\<rparr>) (Inputlist cinfo)")
        from createLoop_events_any[OF c1] e0 have n1: "headerFree (events (Fp fimg1))" by auto
        show ?thesis
        proof (cases r1)
          case (Some e)
          with run body sk Inr c1 n1 show ?thesis by auto
        next
          case None
          obtain r2 fimg2 where c2: "writeDescriptors c fimg1 = (r2, fimg2)"
            by (cases "writeDescriptors c fimg1")
          from writeDescriptors_any[OF c2] n1 have n2: "headerFree (events (Fp fimg2))" by auto
          show ?thesis
          proof (cases r2)
            case (Some e)
            with run body sk Inr c1 None c2 n2 show ?thesis by auto
          next
            case n: None
            from run body sk Inr c1 None c2 n have c4: "writeHeader c fimg2 = (r, fimg')" by simp
            show ?thesis
            proof (cases r)
              case (Some e)
              with writeHeader_Some[of c fimg2 e fimg'] c4 n2 show ?thesis by simp
            next
              case n4: None
              have "fimg2 = fimg2\<lparr>Header := Header fimg2\<rparr>" by simp
              with c4 n4 have c4': "writeHeader c (fimg2\<lparr>Header := Header fimg2\<rparr>) = (None, fimg')"
                by simp
              from persist_steps[OF c2[unfolded n] c4', of "[]" "events (Fp fimg1)"] n1 n4
              show ?thesis by (auto simp: persisted_def)
            qed
          qed
        qed
      qed
    qed
  qed
qed

section \<open>The layout of a created container\<close>

text \<open>
  The layout that \<open>CreateContainer\<close> builds. The payload writes are the first writes of the
  file, one for each object, in input order. \<open>offsetBefore c evs j\<close> is the file offset
  before object \<open>j\<close> is laid out: the start of the data region for the first object, the end
  of the previous payload write for the others.
\<close>

fun endOf :: "params \<Rightarrow> ioev \<Rightarrow> nat" where
  "endOf c (Wr off x) = off + csize c x"
| "endOf c Synced = 0"

definition offsetBefore :: "params \<Rightarrow> ioev list \<Rightarrow> nat \<Rightarrow> nat" where
  "offsetBefore c evs j =
     (if j = 0 then nat (sint (DataStartOffset c)) else endOf c (evs ! (j - 1)))"

text \<open>
  \<open>slotOK\<close>: descriptor \<open>d\<close> and payload write \<open>ev\<close> are what \<open>createDescriptor\<close> makes of
  \<open>input\<close> when the file offset before it is \<open>start\<close>.
\<close>

definition slotOK :: "host \<Rightarrow> DescriptorInput \<Rightarrow> Descriptor \<Rightarrow> ioev \<Rightarrow> nat \<Rightarrow> bool" where
  "slotOK h input d ev start \<longleftrightarrow>
     (\<exists>bs. ev = Wr (nat (sint (Fileoff d))) (Raw bs) \<and>
        (Data_in input = Some bs \<or>
         Data_in input = None \<and> Fp_in input = Some bs \<and> word_of_nat (length bs) = Size input) \<and>
        nat (sint (Fileoff d)) + length bs < 2 ^ 63) \<and>
     0 \<le> sint (Fileoff d) \<and>
     nextAligned (word_of_nat start) (Pagesize h) = Inr (Fileoff d) \<and>
     Filelen d = Size input \<and>
     Storelen d = Fileoff d + Filelen d - word_of_nat start"

definition laidOut :: "params \<Rightarrow> host \<Rightarrow> DescriptorInput list \<Rightarrow> FileImage \<Rightarrow> bool" where
  "laidOut c h ins fimg \<longleftrightarrow>
     length ins \<le> length (DescrArr fimg) \<and>
     length (events (Fp fimg)) = length ins \<and>
     (\<forall>j<length (DescrArr fimg). Used (DescrArr fimg ! j) \<longleftrightarrow> j < length ins) \<and>
     pos (Fp fimg) = offsetBefore c (events (Fp fimg)) (length ins) \<and>
     Dfree (Header fimg) = Dtotal (Header fimg) - word_of_nat (length ins) \<and>
     Dtotal (Header fimg) = word_of_nat (length (DescrArr fimg)) \<and>
     Datalen (Header fimg) = sum_list (map Storelen (take (length ins) (DescrArr fimg))) \<and>
     (\<forall>j<length ins. slotOK h (ins ! j) (DescrArr fimg ! j) (events (Fp fimg) ! j)
                         (offsetBefore c (events (Fp fimg)) j))"

lemma offsetBefore_append:
  "j \<le> length evs \<Longrightarrow> offsetBefore c (evs @ [ev]) j = offsetBefore c evs j"
  by (auto simp: offsetBefore_def nth_append)

lemma offsetBefore_last:
  "offsetBefore c (evs @ [Wr off x]) (Suc (length evs)) = off + csize c x"
  by (simp add: offsetBefore_def)

lemma take_Suc_update:
  "k < length arr \<Longrightarrow> take (Suc k) (list_update arr k d) = take k arr @ [d]"
  by (simp add: take_Suc_conv_app_nth)

lemma laidOut_step:
  assumes inv: "laidOut c h ins fimg"
    and run: "createDescriptor c h fimg input = (None, fimg')"
  shows "laidOut c h (ins @ [input]) fimg'"
proof -
  let ?k = "length ins"
  let ?arr = "DescrArr fimg"
  let ?evs = "events (Fp fimg)"
  note cd = createDescriptor_None[OF run]
  from inv have
    kl: "?k \<le> length ?arr" and el: "length ?evs = ?k"
    and used: "\<forall>j<length ?arr. Used (?arr ! j) \<longleftrightarrow> j < ?k"
    and ps: "pos (Fp fimg) = offsetBefore c ?evs ?k"
    and df: "Dfree (Header fimg) = Dtotal (Header fimg) - word_of_nat ?k"
    and dt: "Dtotal (Header fimg) = word_of_nat (length ?arr)"
    and dl: "Datalen (Header fimg) = sum_list (map Storelen (take ?k ?arr))"
    and slots: "\<forall>j<?k. slotOK h (ins ! j) (?arr ! j) (?evs ! j) (offsetBefore c ?evs j)"
    by (auto simp: laidOut_def)
  from cd have "Dfree (Header fimg) \<noteq> 0" by simp
  with df dt have "?k \<noteq> length ?arr" by auto
  with kl have k: "?k < length ?arr" by simp
  have idx: "findFree ?arr 0 0 = ?k"
    using findFree_first[of ?k ?arr 0 0] used k by auto
  from cd[unfolded idx] obtain off bs where
    arr': "DescrArr fimg' = list_update ?arr ?k (DescrArr fimg' ! ?k)"
    and hd': "Header fimg' = (Header fimg)\<lparr>Dfree := Dfree (Header fimg) - 1,
               Datalen := Datalen (Header fimg) + Storelen (DescrArr fimg' ! ?k)\<rparr>"
    and na: "nextAligned (word_of_nat (pos (Fp fimg))) (Pagesize h) = Inr off"
    and off: "0 \<le> sint off"
    and d': "Used (DescrArr fimg' ! ?k)" "Fileoff (DescrArr fimg' ! ?k) = off"
            "Filelen (DescrArr fimg' ! ?k) = Size input"
            "Storelen (DescrArr fimg' ! ?k) = off + Size input - word_of_nat (pos (Fp fimg))"
    and bs: "Data_in input = Some bs \<or>
         Data_in input = None \<and> Fp_in input = Some bs \<and> word_of_nat (length bs) = Size input"
    and bound: "nat (sint off) + length bs < 2 ^ 63"
    and ev': "events (Fp fimg') = ?evs @ [Wr (nat (sint off)) (Raw bs)]"
    and ps': "pos (Fp fimg') = nat (sint off) + length bs"
    by blast
  have len': "length (DescrArr fimg') = length ?arr"
    by (subst arr') simp
  have nth': "DescrArr fimg' ! j = ?arr ! j" if "j \<noteq> ?k" for j
    using that by (subst arr') simp
  have new: "slotOK h input (DescrArr fimg' ! ?k) (Wr (nat (sint off)) (Raw bs))
               (offsetBefore c ?evs ?k)"
    using na off d' bs bound ps by (auto simp: slotOK_def)
  have old: "slotOK h (ins ! j) (DescrArr fimg' ! j) (events (Fp fimg') ! j)
               (offsetBefore c (events (Fp fimg')) j)" if "j < ?k" for j
    using that slots el nth'[of j] by (simp add: ev' nth_append offsetBefore_append)
  have a1: "length (ins @ [input]) \<le> length (DescrArr fimg')" using k len' by simp
  have a2: "length (events (Fp fimg')) = length (ins @ [input])" using el ev' by simp
  have a3: "\<forall>j<length (DescrArr fimg'). Used (DescrArr fimg' ! j) \<longleftrightarrow> j < length (ins @ [input])"
  proof (intro allI impI)
    fix j assume "j < length (DescrArr fimg')"
    then show "Used (DescrArr fimg' ! j) \<longleftrightarrow> j < length (ins @ [input])"
      using used d'(1) nth'[of j] len' by (cases "j = ?k") auto
  qed
  have a4: "pos (Fp fimg') = offsetBefore c (events (Fp fimg')) (length (ins @ [input]))"
    using ps' by (simp add: ev' el[symmetric] offsetBefore_last)
  have a5: "Dfree (Header fimg') = Dtotal (Header fimg') - word_of_nat (length (ins @ [input]))"
    using df by (simp add: hd')
  have a6: "Dtotal (Header fimg') = word_of_nat (length (DescrArr fimg'))"
    using dt len' by (simp add: hd')
  have "take (Suc ?k) (DescrArr fimg') = take ?k ?arr @ [DescrArr fimg' ! ?k]"
    by (subst arr') (simp add: take_Suc_update k)
  then have a7: "Datalen (Header fimg') =
      sum_list (map Storelen (take (length (ins @ [input])) (DescrArr fimg')))"
    using dl by (simp add: hd')
  have a8: "\<forall>j<length (ins @ [input]).
      slotOK h ((ins @ [input]) ! j) (DescrArr fimg' ! j) (events (Fp fimg') ! j)
        (offsetBefore c (events (Fp fimg')) j)"
  proof (intro allI impI)
    fix j assume "j < length (ins @ [input])"
    then consider "j < ?k" | "j = ?k" by fastforce
    then show "slotOK h ((ins @ [input]) ! j) (DescrArr fimg' ! j) (events (Fp fimg') ! j)
        (offsetBefore c (events (Fp fimg')) j)"
    proof cases
      case 1 with old[of j] show ?thesis by (simp add: nth_append)
    next
      case 2 with new el show ?thesis by (simp add: ev' nth_append offsetBefore_append)
    qed
  qed
  show ?thesis unfolding laidOut_def using a1 a2 a3 a4 a5 a6 a7 a8 by blast
qed

lemma createLoop_laidOut:
  "laidOut c h ins fimg \<Longrightarrow> createLoop c h fimg es = (None, fimg') \<Longrightarrow>
     \<exists>ins'. es = map Elem ins' \<and> laidOut c h (ins @ ins') fimg'"
proof (induction es arbitrary: ins fimg)
  case Nil
  then show ?case by (intro exI[of _ "[]"]) simp
next
  case (Cons x es)
  show ?case
  proof (cases x)
    case NotInput
    with Cons.prems show ?thesis by simp
  next
    case (Elem input)
    with Cons.prems obtain fimg1 where
      c1: "createDescriptor c h fimg input = (None, fimg1)" and
      r: "createLoop c h fimg1 es = (None, fimg')"
      by (auto split: prod.splits option.splits)
    from laidOut_step[OF Cons.prems(1) c1] have "laidOut c h (ins @ [input]) fimg1" .
    from Cons.IH[OF this r] obtain ins' where
      "es = map Elem ins'" "laidOut c h ((ins @ [input]) @ ins') fimg'" by blast
    with Elem show ?thesis by (intro exI[of _ "input # ins'"]) simp
  qed
qed

lemma createLoop_frame:
  "createLoop c h fimg es = (None, fimg') \<Longrightarrow>
     length (DescrArr fimg') = length (DescrArr fimg) \<and>
     Dataoff (Header fimg') = Dataoff (Header fimg)"
proof (induction es arbitrary: fimg)
  case Nil then show ?case by simp
next
  case (Cons x es)
  show ?case
  proof (cases x)
    case NotInput
    with Cons.prems show ?thesis by simp
  next
    case (Elem input)
    with Cons.prems obtain fimg1 where
      c1: "createDescriptor c h fimg input = (None, fimg1)" and
      r: "createLoop c h fimg1 es = (None, fimg')"
      by (auto split: prod.splits option.splits)
    from createDescriptor_None[OF c1] have
      "DescrArr fimg1 = list_update (DescrArr fimg) (findFree (DescrArr fimg) 0 0)
                        (DescrArr fimg1 ! findFree (DescrArr fimg) 0 0)"
      "Dataoff (Header fimg1) = Dataoff (Header fimg)" by auto
    then have "length (DescrArr fimg1) = length (DescrArr fimg)"
      "Dataoff (Header fimg1) = Dataoff (Header fimg)"
      by (metis length_list_update, simp)
    with Cons.IH[OF r] show ?thesis by simp
  qed
qed

lemma CreateContainer_laidOut:
  assumes run: "CreateContainer c h cinfo = (None, fimg')"
  shows "\<exists>ins fimg1. Inputlist cinfo = map Elem ins \<and> ins \<noteq> [] \<and> laidOut c h ins fimg1 \<and>
           0 \<le> sint (DataStartOffset c) \<and>
           length (DescrArr fimg1) = DescrNumEntries c \<and>
           Dataoff (Header fimg1) = DataStartOffset c \<and>
           DescrArr fimg' = DescrArr fimg1 \<and>
           Header fimg' = (Header fimg1)\<lparr>Descrlen :=
              word_of_nat (length (DescrArr fimg1) * DescrSize c)\<rparr> \<and>
           events (Fp fimg') = events (Fp fimg1) @
              tableEvents c (nat (sint (DescrStartOffset c))) (DescrArr fimg') @
              [Wr 0 (EncHeader (Header fimg'))]"
proof -
  from run have ne: "Inputlist cinfo \<noteq> []"
    by (auto simp: CreateContainer_def split: if_splits)
  from run ne obtain fs where fs: "OpenFaults h = Some fs"
    by (cases "OpenFaults h") (auto simp: CreateContainer_def Let_def)
  define hdr where "hdr = (emptyHeader c)\<lparr>
              Launch := copyBytes (Launch (emptyHeader c)) (Launchstr cinfo),
              Magic := copyBytes (Magic (emptyHeader c)) (HdrMagic c),
              Version := copyBytes (Version (emptyHeader c)) (Sifversion cinfo),
              Arch := copyBytes (Arch (emptyHeader c)) (Arch_ci cinfo),
              ID_hdr := copyBytes (ID_hdr (emptyHeader c)) (ID_ci cinfo),
              Ctime_hdr := Now h, Mtime_hdr := Now h,
              Dfree := word_of_nat (DescrNumEntries c),
              Dtotal := word_of_nat (DescrNumEntries c),
              Descroff := DescrStartOffset c,
              Dataoff := DataStartOffset c\<rparr>"
  define f1 where "f1 = \<lparr>Header = hdr,
          Fp = \<lparr>events = [], pos = 0, faults = fs, valid = True\<rparr>,
          DescrArr = replicate (DescrNumEntries c) (emptyDesc c)\<rparr>"
  have body: "CreateContainer c h cinfo =
        (case seekSet (Fp f1) (DataStartOffset c) of
               (Inl e, fp) \<Rightarrow> (Some e, f1\<lparr>Fp := fp\<rparr>)
             | (Inr off, fp) \<Rightarrow>
                 (case createLoop c h (f1\<lparr>Fp := fp\<rparr>) (Inputlist cinfo) of
                    (Some e, fimg1) \<Rightarrow> (Some e, fimg1)
                  | (None, fimg1) \<Rightarrow>
                      (case writeDescriptors c fimg1 of
                         (Some e, fimg2) \<Rightarrow> (Some e, fimg2)
                       | (None, fimg2) \<Rightarrow> writeHeader c fimg2)))"
    using ne fs by (simp add: CreateContainer_def Let_def f1_def hdr_def
            split: prod.splits sum.splits option.splits)
  from run[unfolded body] obtain off fp fimg1 fimg2 where
    sk: "seekSet (Fp f1) (DataStartOffset c) = (Inr off, fp)" and
    lp: "createLoop c h (f1\<lparr>Fp := fp\<rparr>) (Inputlist cinfo) = (None, fimg1)" and
    wd: "writeDescriptors c fimg1 = (None, fimg2)" and
    wh: "writeHeader c fimg2 = (None, fimg')"
    by (auto split: prod.splits sum.splits option.splits)
  from seekSet_Inr[OF sk] have s: "0 \<le> sint (DataStartOffset c)" "valid fp"
    "events fp = []" "pos fp = nat (sint (DataStartOffset c))"
    by (auto simp: f1_def)
  have init: "laidOut c h [] (f1\<lparr>Fp := fp\<rparr>)"
    using s by (simp add: laidOut_def f1_def hdr_def offsetBefore_def emptyDesc_def emptyHeader_def)
  from createLoop_laidOut[OF init lp] obtain ins where
    ins: "Inputlist cinfo = map Elem ins" "laidOut c h ins fimg1" by auto
  have len: "length (DescrArr fimg1) = DescrNumEntries c"
    and dataoff: "Dataoff (Header fimg1) = DataStartOffset c"
    using createLoop_frame[OF lp] by (simp_all add: f1_def hdr_def)
  from writeDescriptors_None[OF wd] writeHeader_None[OF wh] ins ne s(1) len dataoff
  show ?thesis
    by (intro exI[of _ ins] exI[of _ fimg1]) auto
qed


lemma filter_prefix:
  "k \<le> length xs \<Longrightarrow> \<forall>j<length xs. P (xs ! j) \<longleftrightarrow> j < k \<Longrightarrow> filter P xs = take k xs"
proof (induction xs arbitrary: k)
  case Nil then show ?case by simp
next
  case (Cons x xs)
  show ?case
  proof (cases k)
    case 0
    with Cons.prems(2) have "\<forall>y\<in>set (x # xs). \<not> P y"
      by (metis in_set_conv_nth less_nat_zero_code)
    with 0 show ?thesis by simp
  next
    case (Suc k')
    with Cons.prems(2) have "P x" by auto
    moreover have "\<forall>j<length xs. P (xs ! j) \<longleftrightarrow> j < k'"
      using Cons.prems(2) Suc by auto
    moreover have "k' \<le> length xs" using Cons.prems(1) Suc by simp
    ultimately show ?thesis using Cons.IH[of k'] Suc by simp
  qed
qed

lemma offsetBefore_prefix:
  "j \<le> length evs \<Longrightarrow> offsetBefore c (evs @ later) j = offsetBefore c evs j"
  by (auto simp: offsetBefore_def nth_append)

text \<open>
  C5. After a successful \<open>CreateContainer\<close> with \<open>N\<close> inputs, \<open>1 \<le> N \<le> DescrNumEntries\<close>,
  \<open>Dtotal - Dfree = N\<close> (in \<open>int64\<close> arithmetic, and as numbers when the capacity is below
  \<open>2 ^ 63\<close>), exactly \<open>N\<close> descriptors are used, \<open>Datalen\<close> is the sum of \<open>Storelen\<close> over the
  used descriptors, and the \<open>Storelen\<close> of each used descriptor is
  \<open>Fileoff + Filelen\<close> minus the file offset before that object was laid out.
\<close>

theorem CreateContainer_accounting:
  assumes run: "CreateContainer c h cinfo = (None, fimg')"
  shows "1 \<le> length (Inputlist cinfo) \<and> length (Inputlist cinfo) \<le> DescrNumEntries c \<and>
     Dtotal (Header fimg') - Dfree (Header fimg') = word_of_nat (length (Inputlist cinfo)) \<and>
     (DescrNumEntries c < 2 ^ 63 \<longrightarrow>
        sint (Dtotal (Header fimg')) - sint (Dfree (Header fimg')) = int (length (Inputlist cinfo))) \<and>
     length (filter Used (DescrArr fimg')) = length (Inputlist cinfo) \<and>
     Datalen (Header fimg') = sum_list (map Storelen (filter Used (DescrArr fimg'))) \<and>
     (\<forall>j<length (DescrArr fimg'). Used (DescrArr fimg' ! j) \<longrightarrow>
        Storelen (DescrArr fimg' ! j) =
          Fileoff (DescrArr fimg' ! j) + Filelen (DescrArr fimg' ! j) -
          word_of_nat (offsetBefore c (events (Fp fimg')) j))"
proof -
  from CreateContainer_laidOut[OF run] obtain ins fimg1 where
    il: "Inputlist cinfo = map Elem ins" and ne: "ins \<noteq> []" and
    lo: "laidOut c h ins fimg1" and
    len: "length (DescrArr fimg1) = DescrNumEntries c" and
    arr: "DescrArr fimg' = DescrArr fimg1" and
    hd: "Header fimg' = (Header fimg1)\<lparr>Descrlen :=
              word_of_nat (length (DescrArr fimg1) * DescrSize c)\<rparr>" and
    ev: "events (Fp fimg') = events (Fp fimg1) @
              tableEvents c (nat (sint (DescrStartOffset c))) (DescrArr fimg') @
              [Wr 0 (EncHeader (Header fimg'))]"
    by blast
  let ?N = "length ins"
  let ?arr = "DescrArr fimg1"
  have N: "length (Inputlist cinfo) = ?N" by (simp add: il)
  from lo have
    kl: "?N \<le> length ?arr" and el: "length (events (Fp fimg1)) = ?N"
    and used: "\<forall>j<length ?arr. Used (?arr ! j) \<longleftrightarrow> j < ?N"
    and df: "Dfree (Header fimg1) = Dtotal (Header fimg1) - word_of_nat ?N"
    and dt: "Dtotal (Header fimg1) = word_of_nat (length ?arr)"
    and dl: "Datalen (Header fimg1) = sum_list (map Storelen (take ?N ?arr))"
    and slots: "\<forall>j<?N. slotOK h (ins ! j) (?arr ! j) (events (Fp fimg1) ! j)
                   (offsetBefore c (events (Fp fimg1)) j)"
    by (auto simp: laidOut_def)
  have fu: "filter Used ?arr = take ?N ?arr" using kl used by (rule filter_prefix)
  have c1: "1 \<le> length (Inputlist cinfo)" using ne N by (cases ins) auto
  have c2: "length (Inputlist cinfo) \<le> DescrNumEntries c" using kl len N by simp
  have c3: "Dtotal (Header fimg') - Dfree (Header fimg') = word_of_nat (length (Inputlist cinfo))"
    using df by (simp add: hd N)
  have c4: "sint (Dtotal (Header fimg')) - sint (Dfree (Header fimg')) = int (length (Inputlist cinfo))"
    if b: "DescrNumEntries c < 2 ^ 63"
  proof -
    have d1: "Dfree (Header fimg1) = word_of_nat (length ?arr - ?N)"
      using df dt kl by (simp add: of_nat_diff)
    have b1: "length ?arr - ?N < 2 ^ 63" and b2: "length ?arr < 2 ^ 63" using b len by simp_all
    have "sint (Dfree (Header fimg1)) = int (length ?arr - ?N)"
      unfolding d1 using b1 by (rule sint_of_nat_i64)
    moreover have "sint (Dtotal (Header fimg1)) = int (length ?arr)"
      unfolding dt using b2 by (rule sint_of_nat_i64)
    ultimately show ?thesis using kl by (simp add: hd N)
  qed
  have c5: "length (filter Used (DescrArr fimg')) = length (Inputlist cinfo)"
    using fu kl by (simp add: arr N)
  have c6: "Datalen (Header fimg') = sum_list (map Storelen (filter Used (DescrArr fimg')))"
    using dl fu by (simp add: hd arr)
  have c7: "Storelen (DescrArr fimg' ! j) =
          Fileoff (DescrArr fimg' ! j) + Filelen (DescrArr fimg' ! j) -
          word_of_nat (offsetBefore c (events (Fp fimg')) j)"
    if "j < length (DescrArr fimg')" "Used (DescrArr fimg' ! j)" for j
  proof -
    from that used have j: "j < ?N" by (simp add: arr)
    with slots have "slotOK h (ins ! j) (?arr ! j) (events (Fp fimg1) ! j)
                   (offsetBefore c (events (Fp fimg1)) j)" by simp
    moreover have "offsetBefore c (events (Fp fimg')) j = offsetBefore c (events (Fp fimg1)) j"
      unfolding ev using j el by (intro offsetBefore_prefix) simp
    ultimately show ?thesis by (simp add: slotOK_def arr)
  qed
  from c1 c2 c3 c4 c5 c6 c7 show ?thesis by blast
qed

section \<open>Payload ranges\<close>

lemma slotOK_facts:
  assumes s: "slotOK h input d ev start"
    and page: "0 \<le> sint (Pagesize h)" and st: "start < 2 ^ 63"
  shows "int start \<le> sint (Fileoff d)" and "0 \<le> sint (Fileoff d)"
    and "\<exists>bs. ev = Wr (nat (sint (Fileoff d))) (Raw bs) \<and> nat (sint (Fileoff d)) + length bs < 2 ^ 63 \<and>
           ((\<forall>b. Data_in input = Some b \<longrightarrow> sint (Size input) \<le> int (length b)) \<longrightarrow>
              sint (Filelen d) \<le> int (length bs))"
proof -
  from s have na: "nextAligned (word_of_nat start) (Pagesize h) = Inr (Fileoff d)"
    and nn: "0 \<le> sint (Fileoff d)" by (auto simp: slotOK_def)
  have ss: "sint (word_of_nat start :: i64) = int start" using st by (rule sint_of_nat_i64)
  from nextAligned_ge[OF na page _ nn] ss show "int start \<le> sint (Fileoff d)" by simp
  show "0 \<le> sint (Fileoff d)" by (rule nn)
  from s obtain bs where ev: "ev = Wr (nat (sint (Fileoff d))) (Raw bs)"
    and src: "Data_in input = Some bs \<or>
         Data_in input = None \<and> Fp_in input = Some bs \<and> word_of_nat (length bs) = Size input"
    and bd: "nat (sint (Fileoff d)) + length bs < 2 ^ 63"
    and fl: "Filelen d = Size input"
    by (auto simp: slotOK_def)
  have "sint (Filelen d) \<le> int (length bs)"
    if h: "\<forall>b. Data_in input = Some b \<longrightarrow> sint (Size input) \<le> int (length b)"
  proof (cases "Data_in input")
    case (Some b)
    with src h fl show ?thesis by auto
  next
    case None
    with src have e: "Size input = word_of_nat (length bs)" by auto
    have "length bs < 2 ^ 63" using bd by simp
    from sint_of_nat_i64[OF this] e fl show ?thesis by simp
  qed
  with ev bd show "\<exists>bs. ev = Wr (nat (sint (Fileoff d))) (Raw bs) \<and> nat (sint (Fileoff d)) + length bs < 2 ^ 63 \<and>
           ((\<forall>b. Data_in input = Some b \<longrightarrow> sint (Size input) \<le> int (length b)) \<longrightarrow>
              sint (Filelen d) \<le> int (length bs))" by blast
qed


lemma laidOut_chain:
  assumes lo: "laidOut c h ins fimg"
    and page: "0 \<le> sint (Pagesize h)"
  shows "j \<le> length ins \<Longrightarrow>
     offsetBefore c (events (Fp fimg)) j < 2 ^ 63 \<and>
     (\<forall>i\<le>j. offsetBefore c (events (Fp fimg)) i \<le> offsetBefore c (events (Fp fimg)) j)"
proof (induction j)
  case 0
  have "sint (DataStartOffset c) < 2 ^ 63" using sint_lt[of "DataStartOffset c"] by simp
  then show ?case by (simp add: offsetBefore_def)
next
  case (Suc j)
  let ?S = "offsetBefore c (events (Fp fimg))"
  from Suc have j: "j < length ins" and b: "?S j < 2 ^ 63" and m: "\<forall>i\<le>j. ?S i \<le> ?S j"
    by auto
  from lo j have sl: "slotOK h (ins ! j) (DescrArr fimg ! j) (events (Fp fimg) ! j) (?S j)"
    by (auto simp: laidOut_def)
  from slotOK_facts[OF sl page b] obtain bs where
    ge: "int (?S j) \<le> sint (Fileoff (DescrArr fimg ! j))" and
    ev: "events (Fp fimg) ! j = Wr (nat (sint (Fileoff (DescrArr fimg ! j)))) (Raw bs)" and
    bd: "nat (sint (Fileoff (DescrArr fimg ! j))) + length bs < 2 ^ 63"
    by blast
  have nx: "?S (Suc j) = nat (sint (Fileoff (DescrArr fimg ! j))) + length bs"
    by (simp add: offsetBefore_def ev)
  have step: "?S j \<le> ?S (Suc j)" using ge nx by linarith
  have "?S i \<le> ?S (Suc j)" if "i \<le> Suc j" for i
  proof (cases "i = Suc j")
    case True then show ?thesis by simp
  next
    case False
    with that have "i \<le> j" by simp
    with m step show ?thesis using le_trans by blast
  qed
  with nx bd show ?case by simp
qed

text \<open>The byte range of the payload of a descriptor.\<close>

definition payloadRange :: "Descriptor \<Rightarrow> int set" where
  "payloadRange d = {sint (Fileoff d) ..< sint (Fileoff d) + sint (Filelen d)}"

text \<open>
  No in-memory buffer of the input list is shorter than the size declared with it.
\<close>

definition buffersCover :: "element list \<Rightarrow> bool" where
  "buffersCover es \<longleftrightarrow>
     list_all (\<lambda>e. case e of NotInput \<Rightarrow> True
        | Elem input \<Rightarrow> (case Data_in input of None \<Rightarrow> True
            | Some b \<Rightarrow> sint (Size input) \<le> int (length b))) es"

text \<open>
  C4 (amended). After a successful \<open>CreateContainer\<close> on a host whose page size is not
  negative, every used descriptor has \<open>Fileoff \<ge> Dataoff\<close>; and when no in-memory buffer of
  the input list is shorter than the size declared with it, the payload ranges
  \<open>[Fileoff, Fileoff + Filelen)\<close> of two distinct used descriptors are disjoint.
\<close>

theorem CreateContainer_disjoint:
  assumes run: "CreateContainer c h cinfo = (None, fimg')"
    and page: "0 \<le> sint (Pagesize h)"
  shows "(\<forall>i<length (DescrArr fimg'). Used (DescrArr fimg' ! i) \<longrightarrow>
            sint (Dataoff (Header fimg')) \<le> sint (Fileoff (DescrArr fimg' ! i))) \<and>
         (buffersCover (Inputlist cinfo) \<longrightarrow>
            (\<forall>i<length (DescrArr fimg'). \<forall>j<length (DescrArr fimg').
               i \<noteq> j \<and> Used (DescrArr fimg' ! i) \<and> Used (DescrArr fimg' ! j) \<longrightarrow>
               payloadRange (DescrArr fimg' ! i) \<inter> payloadRange (DescrArr fimg' ! j) = {}))"
proof -
  from CreateContainer_laidOut[OF run] obtain ins fimg1 where
    il: "Inputlist cinfo = map Elem ins" and
    lo: "laidOut c h ins fimg1" and
    ds: "0 \<le> sint (DataStartOffset c)" and
    dataoff: "Dataoff (Header fimg1) = DataStartOffset c" and
    arr: "DescrArr fimg' = DescrArr fimg1" and
    hd: "Header fimg' = (Header fimg1)\<lparr>Descrlen :=
              word_of_nat (length (DescrArr fimg1) * DescrSize c)\<rparr>"
    by blast
  let ?N = "length ins"
  let ?arr = "DescrArr fimg1"
  let ?S = "offsetBefore c (events (Fp fimg1))"
  from lo have
    used: "\<forall>j<length ?arr. Used (?arr ! j) \<longleftrightarrow> j < ?N"
    and slots: "\<forall>j<?N. slotOK h (ins ! j) (?arr ! j) (events (Fp fimg1) ! j) (?S j)"
    by (auto simp: laidOut_def)
  note chain = laidOut_chain[OF lo page]
  have S0: "int (?S 0) = sint (DataStartOffset c)" using ds by (simp add: offsetBefore_def)
  have start: "int (?S j) \<le> sint (Fileoff (?arr ! j))" if "j < ?N" for j
    using slotOK_facts(1)[OF _ page] slots that chain[of j] by auto
  have first: "sint (Dataoff (Header fimg')) \<le> sint (Fileoff (DescrArr fimg' ! i))"
    if "i < length (DescrArr fimg')" "Used (DescrArr fimg' ! i)" for i
  proof -
    from that used have i: "i < ?N" by (simp add: arr)
    from chain[of i] i have "?S 0 \<le> ?S i" by auto
    with start[OF i] S0 show ?thesis by (simp add: hd dataoff arr)
  qed
  have ordered: "sint (Fileoff (?arr ! i)) + sint (Filelen (?arr ! i)) \<le> sint (Fileoff (?arr ! j))"
    if cover: "buffersCover (Inputlist cinfo)" and ij: "i < j" "j < ?N" for i j
  proof -
    from ij have i: "i < ?N" by simp
    from cover i have cv: "\<forall>b. Data_in (ins ! i) = Some b \<longrightarrow> sint (Size (ins ! i)) \<le> int (length b)"
      by (auto simp: buffersCover_def il list_all_length split: option.splits)
    from slots i have sl: "slotOK h (ins ! i) (?arr ! i) (events (Fp fimg1) ! i) (?S i)" by simp
    from chain[of i] i have b: "?S i < 2 ^ 63" by simp
    from slotOK_facts(2,3)[OF sl page b] cv obtain bs where
      nn: "0 \<le> sint (Fileoff (?arr ! i))" and
      ev: "events (Fp fimg1) ! i = Wr (nat (sint (Fileoff (?arr ! i)))) (Raw bs)" and
      fl: "sint (Filelen (?arr ! i)) \<le> int (length bs)"
      by blast
    have nx: "?S (Suc i) = nat (sint (Fileoff (?arr ! i))) + length bs"
      by (simp add: offsetBefore_def ev)
    from chain[of j] ij have "?S (Suc i) \<le> ?S j" by auto
    with nx nn fl start[OF ij(2)] show ?thesis by linarith
  qed
  have disj: "payloadRange (DescrArr fimg' ! i) \<inter> payloadRange (DescrArr fimg' ! j) = {}"
    if cover: "buffersCover (Inputlist cinfo)"
      and "i < length (DescrArr fimg')" "j < length (DescrArr fimg')"
      and ne: "i \<noteq> j" and "Used (DescrArr fimg' ! i)" "Used (DescrArr fimg' ! j)" for i j
  proof -
    from that used have i: "i < ?N" and j: "j < ?N" by (simp_all add: arr)
    from ne consider "i < j" | "j < i" by linarith
    then show ?thesis
    proof cases
      case 1
      from ordered[OF cover 1 j] show ?thesis by (auto simp: payloadRange_def arr)
    next
      case 2
      from ordered[OF cover 2 i] show ?thesis by (auto simp: payloadRange_def arr)
    qed
  qed
  from first disj show ?thesis by blast
qed

section \<open>A concrete container\<close>

text \<open>
  An instance of the parameters and of the host, and the container that \<open>CreateContainer\<close>
  builds there from one three-byte object with an in-memory buffer.
\<close>

definition exParams :: params where
  "exParams = \<lparr>DescrNumEntries = 48, DescrStartOffset = 4096, DataStartOffset = 32768,
     DelZero = 1, DelCompact = 2, HdrMagic = [83, 73, 70, 95, 77, 65, 71, 73, 67],
     DescrNameLen = 128, DescrMaxPrivLen = 384, HdrLaunchLen = 32, HdrMagicLen = 10,
     HdrVersionLen = 3, HdrArchLen = 3, HdrIDLen = 16, DescrSize = 585, HdrSize = 128\<rparr>"

definition exHost :: host where
  "exHost = \<lparr>Pagesize = 4096, Now = 1500000000, UserIDs = Some (1000, 1000),
     OpenFaults = Some []\<rparr>"

definition exInput :: "byte list \<Rightarrow> i64 \<Rightarrow> DescriptorInput" where
  "exInput bs n = \<lparr>Datatype_in = 1, Groupid_in = 0, Link_in = 0, Size = n,
     Fname = [97], Fp_in = None, Data_in = Some bs, Extra_in = []\<rparr>"

definition exInfo :: "element list \<Rightarrow> CreateInfo" where
  "exInfo xs = \<lparr>Pathname = [97], Launchstr = [], Sifversion = [48, 49], Arch_ci = [48, 50],
     ID_ci = [], Inputlist = xs\<rparr>"

lemma emptyDesc_sel [simp]: "Used (emptyDesc c) = False"
  by (simp add: emptyDesc_def)

lemma emptyHeader_sel [simp]:
  "Dfree (emptyHeader c) = 0" "Dtotal (emptyHeader c) = 0" "Datalen (emptyHeader c) = 0"
  "Dataoff (emptyHeader c) = 0" "Descroff (emptyHeader c) = 0" "Descrlen (emptyHeader c) = 0"
  by (simp_all add: emptyHeader_def)

lemma exParams_sel [simp]:
  "DescrNumEntries exParams = 48" "DescrStartOffset exParams = 4096"
  "DataStartOffset exParams = 32768" "DelZero exParams = 1" "DelCompact exParams = 2"
  "DescrSize exParams = 585" "HdrSize exParams = 128" "DescrNameLen exParams = 128"
  "DescrMaxPrivLen exParams = 384" "HdrMagic exParams = [83, 73, 70, 95, 77, 65, 71, 73, 67]"
  by (simp_all add: exParams_def)

lemma exHost_sel [simp]:
  "Pagesize exHost = 4096" "Now exHost = 1500000000" "UserIDs exHost = Some (1000, 1000)"
  "OpenFaults exHost = Some []"
  by (simp_all add: exHost_def)

lemma exInput_sel [simp]:
  "Size (exInput bs n) = n" "Data_in (exInput bs n) = Some bs" "Fp_in (exInput bs n) = None"
  "Datatype_in (exInput bs n) = 1" "Groupid_in (exInput bs n) = 0" "Link_in (exInput bs n) = 0"
  "Fname (exInput bs n) = [97]" "Extra_in (exInput bs n) = []"
  by (simp_all add: exInput_def)

lemma exInfo_sel [simp]:
  "Inputlist (exInfo xs) = xs" "Launchstr (exInfo xs) = []" "Sifversion (exInfo xs) = [48, 49]"
  "Arch_ci (exInfo xs) = [48, 50]" "ID_ci (exInfo xs) = []"
  by (simp_all add: exInfo_def)

lemma replicate_48: "replicate 48 x = x # replicate 47 x"
  by (simp add: eval_nat_numeral)

lemma replicate_47: "replicate 47 x = x # replicate 46 x"
  by (simp add: eval_nat_numeral)

lemma replicate_46:
  "replicate 46 x = [x, x, x, x, x, x, x, x, x, x, x, x, x, x, x, x, x, x, x, x, x, x, x,
                     x, x, x, x, x, x, x, x, x, x, x, x, x, x, x, x, x, x, x, x, x, x, x]"
  by (simp add: eval_nat_numeral)

lemmas ex_eval = fault_def seekCur_def seekSet_def fwrite_def fsync_def setFileOffNA_def
  nextAligned_def getUserIDs_def fillDescriptor_def writeDataObject_def createDescriptor_def
  writeDescriptors_def writeHeader_def CreateContainer_def AddObject_def DeleteObject_def
  GetFromDescrID_def zeroData_def resetDescriptor_def Let_def word_sless_alt word_sle_eq
  nilFile_def replicate_48 replicate_47 replicate_46

definition exSlot :: "nat \<Rightarrow> i64 \<Rightarrow> i64 \<Rightarrow> i64 \<Rightarrow> Descriptor" where
  "exSlot i off len store = (emptyDesc exParams)\<lparr>Datatype := 1, Used := True,
     ID := word_of_nat i + 1, Groupid := 0, Link := 0, Fileoff := off, Filelen := len,
     Storelen := store, Ctime := 1500000000, Mtime := 1500000000, UID := 1000, Gid := 1000,
     Name := copyInto 128 (Name (emptyDesc exParams)) (pathBase [97]),
     Extra := copyInto 384 (Extra (emptyDesc exParams)) []\<rparr>"

definition exHeader :: "i64 \<Rightarrow> i64 \<Rightarrow> Header" where
  "exHeader free datalen = (emptyHeader exParams)\<lparr>
     Launch := copyBytes (Launch (emptyHeader exParams)) [],
     Magic := copyBytes (Magic (emptyHeader exParams)) [83, 73, 70, 95, 77, 65, 71, 73, 67],
     Version := copyBytes (Version (emptyHeader exParams)) [48, 49],
     Arch := copyBytes (Arch (emptyHeader exParams)) [48, 50],
     ID_hdr := copyBytes (ID_hdr (emptyHeader exParams)) [],
     Ctime_hdr := 1500000000, Mtime_hdr := 1500000000, Dfree := free, Dtotal := 48,
     Descroff := 4096, Descrlen := 28080, Dataoff := 32768, Datalen := datalen\<rparr>"

definition exImage :: FileImage where
  "exImage =
     \<lparr>Header = exHeader 47 3,
      Fp = \<lparr>events = Wr 32768 (Raw [1, 2, 3]) #
                  tableEvents exParams 4096 (exSlot 0 32768 3 3 # replicate 47 (emptyDesc exParams)) @
                  [Wr 0 (EncHeader (exHeader 47 3))],
             pos = 128, faults = [], valid = True\<rparr>,
      DescrArr = exSlot 0 32768 3 3 # replicate 47 (emptyDesc exParams)\<rparr>"

lemma exImage_created:
  "CreateContainer exParams exHost (exInfo [Elem (exInput [1, 2, 3] 3)]) = (None, exImage)"
  by (simp add: ex_eval exImage_def exSlot_def exHeader_def)


lemmas ex_defs = exImage_def exSlot_def exHeader_def

text \<open>The same handle positioned at the end of its data region, as \<open>AddObject\<close> does first.\<close>

definition exReady :: FileImage where
  "exReady = exImage\<lparr>Fp := (Fp exImage)\<lparr>pos := 32771\<rparr>\<rparr>"

lemma exReady_seek:
  "seekSet (Fp exImage) (Dataoff (Header exImage) + Datalen (Header exImage)) =
     (Inr 32771, Fp exReady)"
  by (simp add: ex_eval ex_defs exReady_def)

text \<open>
  C1 fails on \<open>DeleteObject\<close>. In the container created from one three-byte object \<open>Dfree\<close>
  is 47 and 47 slots of the table in memory are free. \<open>DeleteObject(1, DelZero)\<close> succeeds on
  it and leaves \<open>Dfree = 48\<close> with still 47 free slots in the table in memory:
  \<open>resetDescriptor\<close> clears the record on disk only.
\<close>

theorem DeleteObject_desync:
  "CreateContainer exParams exHost (exInfo [Elem (exInput [1, 2, 3] 3)]) = (None, exImage) \<and>
   sint (Dfree (Header exImage)) = 47 \<and> freeSlots (DescrArr exImage) = 47 \<and>
   fst (DeleteObject exParams exHost exImage 1 (DelZero exParams)) = None \<and>
   sint (Dfree (Header (snd (DeleteObject exParams exHost exImage 1 (DelZero exParams))))) = 48 \<and>
   freeSlots (DescrArr (snd (DeleteObject exParams exHost exImage 1 (DelZero exParams)))) = 47"
  by (simp add: exImage_created) (simp add: ex_eval ex_defs freeSlots_def zeroLoop.simps)

text \<open>A full table of 48 slots whose header still counts one free slot.\<close>

definition exFull :: FileImage where
  "exFull = \<lparr>Header = (emptyHeader exParams)\<lparr>Dfree := 1, Dtotal := 48\<rparr>,
              Fp = \<lparr>events = [], pos = 32768, faults = [], valid = True\<rparr>,
              DescrArr = replicate 48 ((emptyDesc exParams)\<lparr>Used := True\<rparr>)\<rparr>"

theorem createDescriptor_exhausted_witness:
  "DescrArr exFull \<noteq> [] \<and> sint (Dtotal (Header exFull)) = int (length (DescrArr exFull)) \<and>
   list_all Used (DescrArr exFull) \<and> Dfree (Header exFull) \<noteq> 0 \<and>
   createDescriptor exParams exHost exFull (exInput [1, 2, 3] 3) = (Some TableDesync, exFull) \<and>
   Dfree (Header (exFull\<lparr>Header := (Header exFull)\<lparr>Dfree := 0\<rparr>\<rparr>)) = 0 \<and>
   createDescriptor exParams exHost (exFull\<lparr>Header := (Header exFull)\<lparr>Dfree := 0\<rparr>\<rparr>)
     (exInput [1, 2, 3] 3) =
     (Some NoFreeSlot, exFull\<lparr>Header := (Header exFull)\<lparr>Dfree := 0\<rparr>\<rparr>)"
  using createDescriptor_exhausted[of exFull exParams exHost "exInput [1, 2, 3] 3"]
    createDescriptor_exhausted[of "exFull\<lparr>Header := (Header exFull)\<lparr>Dfree := 0\<rparr>\<rparr>"
      exParams exHost "exInput [1, 2, 3] 3"]
  by (simp add: exFull_def list_all_iff)

text \<open>
  The same full table under a header whose \<open>Dtotal\<close> is 47. The scan stops at index 47,
  which is not \<open>Dtotal - 1\<close>, so the test of line 134 does not fire: the allocation succeeds,
  writes the payload at offset 32768, overwrites the used slot 47 (its identifier becomes 48)
  and decrements \<open>Dfree\<close> to 0.
\<close>

definition exShort :: FileImage where
  "exShort = exFull\<lparr>Header := (Header exFull)\<lparr>Dtotal := 47\<rparr>\<rparr>"

theorem createDescriptor_overwrites_last:
  "Dfree (Header exShort) \<noteq> 0 \<and> list_all Used (DescrArr exShort) \<and>
   length (DescrArr exShort) = 48 \<and> sint (Dtotal (Header exShort)) = 47 \<and>
   ID (DescrArr exShort ! 47) = 0 \<and>
   fst (createDescriptor exParams exHost exShort (exInput [1, 2, 3] 3)) = None \<and>
   ID (DescrArr (snd (createDescriptor exParams exHost exShort (exInput [1, 2, 3] 3))) ! 47) = 48 \<and>
   Fileoff (DescrArr (snd (createDescriptor exParams exHost exShort (exInput [1, 2, 3] 3))) ! 47) =
     32768 \<and>
   DescrArr (snd (createDescriptor exParams exHost exShort (exInput [1, 2, 3] 3))) \<noteq>
     DescrArr exShort \<and>
   Dfree (Header (snd (createDescriptor exParams exHost exShort (exInput [1, 2, 3] 3)))) = 0 \<and>
   events (Fp (snd (createDescriptor exParams exHost exShort (exInput [1, 2, 3] 3)))) =
     [Wr 32768 (Raw [1, 2, 3])]"
  by (simp add: ex_eval exShort_def exFull_def emptyDesc_def list_all_iff)


text \<open>The compact mode on the container, with an identifier in use and with one that is not.\<close>

theorem DeleteObject_modes_witness:
  "DelCompact exParams \<noteq> DelZero exParams \<and>
   DeleteObject exParams exHost exImage 1 (DelCompact exParams) = (Some NotImplemented, exImage) \<and>
   DeleteObject exParams exHost exImage 7 (DelCompact exParams) = (Some UnknownID, exImage) \<and>
   (0::i64) \<noteq> DelZero exParams \<and> (0::i64) \<noteq> DelCompact exParams \<and>
   fst (DeleteObject exParams exHost exImage 1 0) = None \<and>
   events (Fp (snd (DeleteObject exParams exHost exImage 1 0))) =
     events (Fp exImage) @
       [Wr 4096 (EncDescr (emptyDesc exParams)),
        Wr 0 (EncHeader (Header (snd (DeleteObject exParams exHost exImage 1 0)))), Synced]"
proof -
  let ?run = "DeleteObject exParams exHost exImage 1 0"
  have g1: "GetFromDescrID exImage 1 = Inr (DescrArr exImage ! 0, 0)"
    by (simp add: ex_eval ex_defs)
  have g7: "GetFromDescrID exImage 7 = Inl UnknownID"
    by (simp add: ex_eval ex_defs emptyDesc_def)
  have d: "DelCompact exParams \<noteq> DelZero exParams" by simp
  have z: "(0::i64) \<noteq> DelZero exParams" "(0::i64) \<noteq> DelCompact exParams" by simp_all
  have ok: "fst ?run = None" by (simp add: ex_eval ex_defs)
  then have run: "?run = (None, snd ?run)" by (metis prod.collapse)
  have off: "Descroff (Header exImage) = 4096" by (simp add: ex_defs)
  from DeleteObject_modes[where c=exParams and h=exHost and fimg=exImage and ident=1
      and flags=0 and fimg'="snd ?run"] z run g1 off
  have ev: "events (Fp (snd ?run)) = events (Fp exImage) @
       [Wr 4096 (EncDescr (emptyDesc exParams)), Wr 0 (EncHeader (Header (snd ?run))), Synced]"
    by simp
  from DeleteObject_modes[of exParams exHost exImage 1] DeleteObject_modes[of exParams exHost exImage 7]
    d g1 g7
  have "DeleteObject exParams exHost exImage 1 (DelCompact exParams) = (Some NotImplemented, exImage)"
    "DeleteObject exParams exHost exImage 7 (DelCompact exParams) = (Some UnknownID, exImage)"
    by simp_all
  with d z ok ev show ?thesis by (intro conjI)
qed

text \<open>
  With mode 0, which is neither \<open>DelZero\<close> nor \<open>DelCompact\<close>, the call succeeds, changes the
  header and writes to the file.
\<close>

theorem DeleteObject_other_mode:
  "(0::i64) \<noteq> DelZero exParams \<and> (0::i64) \<noteq> DelCompact exParams \<and>
   fst (DeleteObject exParams exHost exImage 1 0) = None \<and>
   Dfree (Header exImage) = 47 \<and>
   Dfree (Header (snd (DeleteObject exParams exHost exImage 1 0))) = 48 \<and>
   events (Fp (snd (DeleteObject exParams exHost exImage 1 0))) =
     events (Fp exImage) @
       [Wr 4096 (EncDescr (emptyDesc exParams)), Wr 0 (EncHeader (exHeader 48 3)), Synced]"
  by (simp add: ex_eval ex_defs)


text \<open>Zero-filling the three-byte payload of the container is one write of three zeros.\<close>

theorem zeroData_writes_witness:
  "0 \<le> sint (Filelen (DescrArr exImage ! 0)) \<and>
   fst (zeroData exParams exImage (DescrArr exImage ! 0)) = None \<and>
   events (Fp (snd (zeroData exParams exImage (DescrArr exImage ! 0)))) =
     events (Fp exImage) @ [Wr 32768 (Raw [0, 0, 0])] \<and>
   byteAt exParams (events (Fp exImage)) 32770 = Some (Byte 3) \<and>
   byteAt exParams (events (Fp (snd (zeroData exParams exImage (DescrArr exImage ! 0))))) 32770 =
     Some (Byte 0) \<and>
   byteAt exParams (events (Fp (snd (zeroData exParams exImage (DescrArr exImage ! 0))))) 32771 =
     byteAt exParams (events (Fp exImage)) 32771"
proof -
  let ?d = "DescrArr exImage ! 0"
  let ?run = "zeroData exParams exImage ?d"
  have d: "Fileoff ?d = 32768" "Filelen ?d = 3" by (simp_all add: ex_defs)
  have len: "0 \<le> sint (Filelen ?d)" by (simp add: d)
  have ok: "fst ?run = None"
    by (simp add: ex_eval ex_defs zeroLoop.simps)
  then have run: "?run = (None, snd ?run)" by (metis prod.collapse)
  have ch: "zeroChunks 32768 3 = [Wr 32768 (Raw [0, 0, 0])]"
    by (simp add: zeroChunks.simps numeral_3_eq_3)
  have before: "byteAt exParams (events (Fp exImage)) 32770 = Some (Byte 3)"
    by (simp add: byteAt_def ex_defs replicate_47 replicate_46)
  note zw = zeroData_writes[OF len run]
  from zw have e: "events (Fp (snd ?run)) = events (Fp exImage) @
       zeroChunks (nat (sint (Fileoff ?d))) (nat (sint (Filelen ?d)))" by blast
  from zw have "sint (Fileoff ?d) \<le> int 32770 \<and> int 32770 < sint (Fileoff ?d) + sint (Filelen ?d) \<longrightarrow>
      byteAt exParams (events (Fp (snd ?run))) 32770 = Some (Byte 0)" by blast
  then have inside: "byteAt exParams (events (Fp (snd ?run))) 32770 = Some (Byte 0)"
    by (simp add: d)
  from zw have "\<not> (sint (Fileoff ?d) \<le> int 32771 \<and> int 32771 < sint (Fileoff ?d) + sint (Filelen ?d)) \<longrightarrow>
      byteAt exParams (events (Fp (snd ?run))) 32771 = byteAt exParams (events (Fp exImage)) 32771"
    by blast
  then have outside: "byteAt exParams (events (Fp (snd ?run))) 32771 =
      byteAt exParams (events (Fp exImage)) 32771"
    by (simp add: d)
  from len ok e ch before inside outside show ?thesis by (simp add: d)
qed

text \<open>The accounting of the container created from one object.\<close>

theorem CreateContainer_accounting_witness:
  "CreateContainer exParams exHost (exInfo [Elem (exInput [1, 2, 3] 3)]) = (None, exImage) \<and>
   Dtotal (Header exImage) - Dfree (Header exImage) = 1 \<and>
   sint (Dtotal (Header exImage)) - sint (Dfree (Header exImage)) = 1 \<and>
   length (filter Used (DescrArr exImage)) = 1 \<and>
   Datalen (Header exImage) = sum_list (map Storelen (filter Used (DescrArr exImage))) \<and>
   Storelen (DescrArr exImage ! 0) =
     Fileoff (DescrArr exImage ! 0) + Filelen (DescrArr exImage ! 0) -
     word_of_nat (offsetBefore exParams (events (Fp exImage)) 0)"
proof -
  have len: "0 < length (DescrArr exImage)" "Used (DescrArr exImage ! 0)"
    by (simp_all add: ex_defs)
  from CreateContainer_accounting[OF exImage_created] len exImage_created
  show ?thesis by simp
qed

text \<open>
  A two-byte buffer declared as nine bytes: the allocation succeeds, two bytes are written
  and the descriptor records nine.
\<close>

theorem writeDataObject_buffer_witness:
  "Data_in (exInput [4, 5] 9) = Some [4, 5] \<and>
   fst (createDescriptor exParams exHost exReady (exInput [4, 5] 9)) = None \<and>
   Filelen (DescrArr (snd (createDescriptor exParams exHost exReady (exInput [4, 5] 9))) ! 1) = 9 \<and>
   events (Fp (snd (createDescriptor exParams exHost exReady (exInput [4, 5] 9)))) =
     events (Fp exReady) @ [Wr 36864 (Raw [4, 5])]"
proof -
  let ?input = "exInput [4, 5] 9"
  let ?run = "createDescriptor exParams exHost exReady ?input"
  have buf: "Data_in ?input = Some [4, 5]" by simp
  have ok: "fst ?run = None"
    by (simp add: ex_eval ex_defs exReady_def)
  then have run: "?run = (None, snd ?run)" by (metis prod.collapse)
  have idx: "findFree (DescrArr exReady) 0 0 = Suc 0"
    by (simp add: ex_defs exReady_def replicate_47 replicate_46)
  have off: "Fileoff (DescrArr (snd ?run) ! Suc 0) = 36864"
    by (simp add: ex_eval ex_defs exReady_def)
  from writeDataObject_buffer[OF buf, where c=exParams and h=exHost and fimg=exReady
      and fimg'="snd ?run"] run
  have "Filelen (DescrArr (snd ?run) ! findFree (DescrArr exReady) 0 0) = Size ?input \<and>
        events (Fp (snd ?run)) = events (Fp exReady) @
          [Wr (nat (sint (Fileoff (DescrArr (snd ?run) ! findFree (DescrArr exReady) 0 0))))
              (Raw [4, 5])]"
    by blast
  with buf ok show ?thesis by (simp add: idx off)
qed

text \<open>
  \<open>AddObject\<close> on the container and the creation of the container itself: payload, table,
  header.
\<close>

theorem table_before_header_witness:
  "fst (AddObject exParams exHost exImage (exInput [4, 5] 2)) = None \<and>
   (\<exists>new. events (Fp (snd (AddObject exParams exHost exImage (exInput [4, 5] 2)))) =
            events (Fp exImage) @ new \<and>
          persisted exParams (snd (AddObject exParams exHost exImage (exInput [4, 5] 2))) new
            [Synced]) \<and>
   CreateContainer exParams exHost (exInfo [Elem (exInput [1, 2, 3] 3)]) = (None, exImage) \<and>
   persisted exParams exImage (events (Fp exImage)) []"
proof -
  let ?run = "AddObject exParams exHost exImage (exInput [4, 5] 2)"
  have ok: "fst ?run = None"
    by (simp add: ex_eval ex_defs)
  then have run: "?run = (None, snd ?run)" by (metis prod.collapse)
  from table_before_header[where c=exParams and h=exHost and fimg=exImage
      and input="exInput [4, 5] 2" and r=None and fimg'="snd ?run"] run
  have a: "\<exists>new. events (Fp (snd ?run)) = events (Fp exImage) @ new \<and>
          persisted exParams (snd ?run) new [Synced]" by simp
  from table_before_header[where c=exParams and h=exHost and r=None and fimg'=exImage
      and cinfo="exInfo [Elem (exInput [1, 2, 3] 3)]"] exImage_created
  have b: "persisted exParams exImage (events (Fp exImage)) []" by simp
  from ok a b exImage_created show ?thesis by blast
qed

text \<open>
  Two objects, the first with a one-byte buffer declared as \<open>n\<close> bytes. With \<open>n = 5000\<close> both
  are laid out, the second one page after the first and inside the range of the first.
\<close>

definition exTwo :: "i64 \<Rightarrow> CreateInfo" where
  "exTwo n = exInfo [Elem (exInput [1] n), Elem (exInput [2] 1)]"

definition exImageTwo :: "i64 \<Rightarrow> FileImage" where
  "exImageTwo n =
     \<lparr>Header = exHeader 46 (n + 4096),
      Fp = \<lparr>events = Wr 32768 (Raw [1]) # Wr 36864 (Raw [2]) #
                  tableEvents exParams 4096
                    (exSlot 0 32768 n n # exSlot 1 36864 1 4096 # replicate 46 (emptyDesc exParams)) @
                  [Wr 0 (EncHeader (exHeader 46 (n + 4096)))],
             pos = 128, faults = [], valid = True\<rparr>,
      DescrArr = exSlot 0 32768 n n # exSlot 1 36864 1 4096 # replicate 46 (emptyDesc exParams)\<rparr>"

lemma exImageTwo_created:
  "CreateContainer exParams exHost (exTwo n) = (None, exImageTwo n)"
  by (simp add: ex_eval ex_defs exTwo_def exImageTwo_def)

theorem CreateContainer_overlap:
  "CreateContainer exParams exHost (exTwo 5000) = (None, exImageTwo 5000) \<and>
   Used (DescrArr (exImageTwo 5000) ! 0) \<and> Used (DescrArr (exImageTwo 5000) ! 1) \<and>
   payloadRange (DescrArr (exImageTwo 5000) ! 0) = {32768 ..< 37768} \<and>
   payloadRange (DescrArr (exImageTwo 5000) ! 1) = {36864 ..< 36865} \<and>
   payloadRange (DescrArr (exImageTwo 5000) ! 0) \<inter>
   payloadRange (DescrArr (exImageTwo 5000) ! 1) \<noteq> {}"
  by (simp add: exImageTwo_created) (simp add: exImageTwo_def exSlot_def payloadRange_def)

theorem CreateContainer_disjoint_witness:
  "CreateContainer exParams exHost (exTwo 1) = (None, exImageTwo 1) \<and>
   0 \<le> sint (Pagesize exHost) \<and> buffersCover (Inputlist (exTwo 1)) \<and>
   Used (DescrArr (exImageTwo 1) ! 0) \<and> Used (DescrArr (exImageTwo 1) ! 1) \<and>
   sint (Dataoff (Header (exImageTwo 1))) \<le> sint (Fileoff (DescrArr (exImageTwo 1) ! 1)) \<and>
   payloadRange (DescrArr (exImageTwo 1) ! 0) \<inter> payloadRange (DescrArr (exImageTwo 1) ! 1) = {}"
proof -
  have page: "0 \<le> sint (Pagesize exHost)" by simp
  have cover: "buffersCover (Inputlist (exTwo 1))"
    by (simp add: buffersCover_def exTwo_def)
  have u: "Used (DescrArr (exImageTwo 1) ! 0)" "Used (DescrArr (exImageTwo 1) ! 1)"
    "1 < length (DescrArr (exImageTwo 1))"
    by (simp_all add: exImageTwo_def exSlot_def)
  note dj = CreateContainer_disjoint[OF exImageTwo_created page]
  have l0: "0 < length (DescrArr (exImageTwo 1))" using u(3) by linarith
  have ne: "(0::nat) \<noteq> 1" by simp
  from dj[THEN conjunct1, rule_format, OF u(3) u(2)]
  have a: "sint (Dataoff (Header (exImageTwo 1))) \<le> sint (Fileoff (DescrArr (exImageTwo 1) ! 1))" .
  from dj[THEN conjunct2, rule_format, OF cover l0 u(3)] ne u(1,2)
  have b: "payloadRange (DescrArr (exImageTwo 1) ! 0) \<inter>
           payloadRange (DescrArr (exImageTwo 1) ! 1) = {}"
    by blast
  from exImageTwo_created page cover u(1,2) a b show ?thesis by blast
qed

end
